theory Spec2Isabelle
  imports Main
begin

section \<open>Batch placement and the pipelined execution engine\<close>

text \<open>
  The embedding of \<^verbatim>\<open>recsys/dlrm_main_pipeline.py\<close>: the placement function
  \<^verbatim>\<open>put_data_in_device\<close>, the helper \<^verbatim>\<open>_wait_for_batch\<close> and the class
  \<^verbatim>\<open>TrainPipelineBase\<close>. Python exceptions are values of \<open>error\<close>; batch objects
  live in a store and are named by their address, because the placement mutates the
  object it is given and returns that same object.
\<close>

subsection \<open>Data\<close>

datatype device = Cpu | Cuda nat

datatype error =
  StopIteration | AssertionError | AttributeError | TypeError | IndexError | RuntimeError

text \<open>A tensor, as far as the pipeline looks at it: where it lives and its slices along
  dimension 0.\<close>

record 'a tensor =
  device_of :: device
  rows :: "'a list"

record 'a batch =
  dense_features :: "'a tensor"
  sparse_features :: "'a tensor"
  labels :: "'a tensor"

datatype attr = Dense | Sparse | Label

text \<open>One call \<^verbatim>\<open>tensor.to(device, non_blocking=flag)\<close> on an attribute of a batch.\<close>

datatype request = To attr "device option" bool

text \<open>What \<^verbatim>\<open>put_data_in_device\<close> hands back: the tuple of three relocated tensors
  (with the address of the batch object they were read from), or the reference to the
  batch object itself.\<close>

datatype 'a placed =
  Placed_tuple nat "'a tensor" "'a tensor" "'a tensor"
| Batch_ref nat

fun batch_of :: "'a placed \<Rightarrow> nat" where
  "batch_of (Placed_tuple a d s l) = a"
| "batch_of (Batch_ref a) = a"

subsection \<open>Library operations the source calls\<close>

text \<open>\<^verbatim>\<open>Tensor.to(device, non_blocking)\<close>: the tensor on the target device; a target of
  \<^verbatim>\<open>None\<close> leaves it where it is.\<close>

definition tensor_to :: "'a tensor \<Rightarrow> device option \<Rightarrow> 'a tensor" where
  "tensor_to t d = (case d of None \<Rightarrow> t | Some d' \<Rightarrow> t\<lparr>device_of := d'\<rparr>)"

text \<open>\<^verbatim>\<open>torch.tensor_split(t, n, dim=0)\<close> with an integer \<open>n\<close>: \<open>n\<close> sections; the first
  \<open>size mod n\<close> sections have \<open>size div n + 1\<close> rows and the others \<open>size div n\<close>.
  A number of sections that is not positive is a \<^verbatim>\<open>RuntimeError\<close>.\<close>

definition section_rows :: "'a list \<Rightarrow> nat \<Rightarrow> nat \<Rightarrow> 'a list" where
  "section_rows xs n i =
     (let q = length xs div n; r = length xs mod n
      in if i < r then take (q + 1) (drop (i * (q + 1)) xs)
         else take q (drop (r * (q + 1) + (i - r) * q) xs))"

definition tensor_split :: "'a tensor \<Rightarrow> int \<Rightarrow> error + 'a tensor list" where
  "tensor_split t n =
     (if n \<le> 0 then Inl RuntimeError
      else Inr (map (\<lambda>i. t\<lparr>rows := section_rows (rows t) (nat n) i\<rparr>) [0..<nat n]))"

text \<open>Indexing the tuple of shards, \<^verbatim>\<open>shards[i]\<close>: an index from \<open>-n\<close> up to \<open>-1\<close> selects
  from the end, and one outside \<open>-n \<dots> n - 1\<close> raises \<^verbatim>\<open>IndexError\<close>.\<close>

definition py_index :: "'b list \<Rightarrow> int \<Rightarrow> error + 'b" where
  "py_index xs i =
     (if 0 \<le> i \<and> i < int (length xs) then Inr (xs ! nat i)
      else if i < 0 \<and> - int (length xs) \<le> i then Inr (xs ! nat (int (length xs) + i))
      else Inl IndexError)"

text \<open>\<^verbatim>\<open>torch.tensor_split(t, world_size, dim=0)[rank]\<close>.\<close>

definition split_shard :: "'a tensor \<Rightarrow> int \<Rightarrow> int \<Rightarrow> error + 'a tensor" where
  "split_shard t world_size rank =
     (case tensor_split t world_size of
        Inl e \<Rightarrow> Inl e
      | Inr shards \<Rightarrow> py_index shards rank)"

subsection \<open>\<^verbatim>\<open>put_data_in_device\<close>\<close>

text \<open>
  The function reads and writes the batch object at address \<open>a\<close> of the store \<open>h\<close>. It
  returns the transfer requests it issued, in order, its result or the exception raised,
  and the store afterwards. In the branch \<^verbatim>\<open>is_dist\<close> the three \<^verbatim>\<open>.to\<close> calls are written
  without the keyword \<^verbatim>\<open>non_blocking\<close>, whose default in the library is \<^verbatim>\<open>False\<close>.
\<close>

definition put_data_in_device ::
  "(nat \<Rightarrow> 'a batch) \<Rightarrow> nat \<Rightarrow> device option \<Rightarrow> device option \<Rightarrow> bool \<Rightarrow> int \<Rightarrow> int \<Rightarrow> bool
     \<Rightarrow> request list \<times> (error + 'a placed) \<times> (nat \<Rightarrow> 'a batch)" where
  "put_data_in_device h a dense_device sparse_device is_dist rank world_size non_blocking =
     (if is_dist then
        ([To Dense dense_device False, To Sparse sparse_device False, To Label dense_device False],
         Inr (Placed_tuple a (tensor_to (dense_features (h a)) dense_device)
                             (tensor_to (sparse_features (h a)) sparse_device)
                             (tensor_to (labels (h a)) dense_device)),
         h)
      else
        (case split_shard (tensor_to (dense_features (h a)) dense_device) world_size rank of
           Inl e \<Rightarrow> ([To Dense dense_device non_blocking], Inl e, h)
         | Inr d \<Rightarrow>
            let h1 = h(a := (h a)\<lparr>dense_features := d\<rparr>) in
            (case split_shard (tensor_to (labels (h1 a)) dense_device) world_size rank of
               Inl e \<Rightarrow>
                 ([To Dense dense_device non_blocking, To Label dense_device non_blocking],
                  Inl e, h1)
             | Inr l \<Rightarrow>
                let h2 = h1(a := (h1 a)\<lparr>labels := l\<rparr>);
                    h3 = h2(a := (h2 a)\<lparr>sparse_features :=
                                 tensor_to (sparse_features (h2 a)) sparse_device\<rparr>)
                in ([To Dense dense_device non_blocking, To Label dense_device non_blocking,
                     To Sparse sparse_device non_blocking],
                    Inr (Batch_ref a), h3))))"

subsection \<open>The engine's state and what it does\<close>

text \<open>
  What the engine does to the outside is recorded as a trace. \<open>Issued s r\<close> is a transfer
  request issued while the copy stream was the current stream (\<open>s\<close> true) or on the
  default stream. \<open>Live xs\<close> records, after each statement that binds a batch, the
  references held at that point by the field \<^verbatim>\<open>_cur_batch\<close> and by the local variables of
  the running methods.
\<close>

datatype 'a event =
  Next_batch nat
| Zero_grad
| Wait_stream
| Record_stream nat
| Forward nat "'a tensor" "'a tensor"
| Metric_update nat "'a tensor"
| Criterion nat "'a tensor"
| Backward
| Issued bool request
| Optimizer_step
| Live "'a placed list"

text \<open>The world outside the engine: the store of batch objects, the references the
  source iterator has yet to yield, and the trace.\<close>

record 'a world =
  heap :: "nat \<Rightarrow> 'a batch"
  pending :: "nat list"
  trace :: "'a event list"

text \<open>
  The fields of \<^verbatim>\<open>TrainPipelineBase\<close>. \<open>training\<close> is \<^verbatim>\<open>self._model.training\<close> and
  \<open>metrics\<close> the length of \<^verbatim>\<open>self._metrics\<close>; \<open>memcpy_stream\<close> says whether
  \<^verbatim>\<open>self._memcpy_stream\<close> is a stream rather than \<^verbatim>\<open>None\<close>. \<open>connect_attr\<close> is the
  instance attribute \<^verbatim>\<open>_connect\<close>: \<open>None\<close> as long as the name resolves to the method of
  the class, \<open>Some v\<close> once an assignment \<^verbatim>\<open>self._connect = v\<close> has shadowed the method.
\<close>

record 'a pipeline =
  training :: bool
  metrics :: nat
  sparse_device :: "device option"
  dense_device :: "device option"
  memcpy_stream :: bool
  cur_batch :: "'a placed option"
  connected :: bool
  connect_attr :: "bool option"

definition TrainPipelineBase ::
  "bool \<Rightarrow> nat \<Rightarrow> device option \<Rightarrow> device option \<Rightarrow> 'a pipeline" where
  "TrainPipelineBase model_training n_metrics sparse_dev dense_dev =
     \<lparr> training = model_training, metrics = n_metrics,
       sparse_device = sparse_dev, dense_device = dense_dev,
       memcpy_stream = (case sparse_dev of Some (Cuda i) \<Rightarrow> True | _ \<Rightarrow> False),
       cur_batch = None, connected = False, connect_attr = None \<rparr>"

text \<open>\<^verbatim>\<open>reset\<close> assigns \<^verbatim>\<open>False\<close> to the attribute \<^verbatim>\<open>_connect\<close> and \<^verbatim>\<open>None\<close> to
  \<^verbatim>\<open>_cur_batch\<close>; it does not touch \<^verbatim>\<open>_connected\<close>.\<close>

definition reset :: "'a pipeline \<Rightarrow> 'a pipeline" where
  "reset p = p\<lparr>connect_attr := Some False, cur_batch := None\<rparr>"

text \<open>\<^verbatim>\<open>next(dataloader_iter)\<close>.\<close>

definition next_batch :: "'a world \<Rightarrow> (error + nat) \<times> 'a world" where
  "next_batch w =
     (case pending w of
        [] \<Rightarrow> (Inl StopIteration, w)
      | a # as \<Rightarrow> (Inr a, w\<lparr>pending := as, trace := trace w @ [Next_batch a]\<rparr>))"

definition emit :: "'a event list \<Rightarrow> 'a world \<Rightarrow> 'a world" where
  "emit es w = w\<lparr>trace := trace w @ es\<rparr>"

definition live :: "'a placed option list \<Rightarrow> 'a event" where
  "live slots = Live (concat (map (\<lambda>s. case s of None \<Rightarrow> [] | Some x \<Rightarrow> [x]) slots))"

text \<open>\<^verbatim>\<open>_wait_for_batch(batch, stream)\<close>: nothing without a stream; otherwise the current
  stream waits for the copy stream and the batch is asked to \<^verbatim>\<open>record_stream\<close>, a method
  that a batch object has and a tuple has not.\<close>

definition wait_for_batch :: "'a placed \<Rightarrow> bool \<Rightarrow> 'a world \<Rightarrow> (error + unit) \<times> 'a world" where
  "wait_for_batch b stream w =
     (if \<not> stream then (Inr (), w)
      else (case b of
              Placed_tuple a d s l \<Rightarrow> (Inl AttributeError, emit [Wait_stream] w)
            | Batch_ref a \<Rightarrow> (Inr (), emit [Wait_stream, Record_stream a] w)))"

text \<open>
  \<^verbatim>\<open>_connect\<close>. The call of \<^verbatim>\<open>put_data_in_device\<close> passes \<^verbatim>\<open>self._sparse_device\<close> as
  second and \<^verbatim>\<open>self._dense_device\<close> as third argument.
\<close>

definition connect ::
  "'a pipeline \<Rightarrow> 'a world \<Rightarrow> bool \<Rightarrow> int \<Rightarrow> int \<Rightarrow> (error + unit) \<times> 'a pipeline \<times> 'a world" where
  "connect p w use_distributed_dataloader rank world_size =
     (case next_batch w of
        (Inl e, w1) \<Rightarrow> (Inl e, p, w1)
      | (Inr a, w1) \<Rightarrow>
          let w2 = emit [live [cur_batch p, Some (Batch_ref a)]] w1;
              p1 = p\<lparr>cur_batch := Some (Batch_ref a)\<rparr>;
              w3 = emit [live [cur_batch p1, Some (Batch_ref a)]] w2
          in (case put_data_in_device (heap w3) a (sparse_device p1) (dense_device p1)
                     use_distributed_dataloader rank world_size True of
                (reqs, res, h) \<Rightarrow>
                  let w4 = emit (map (Issued (memcpy_stream p1)) reqs) (w3\<lparr>heap := h\<rparr>)
                  in (case res of
                        Inl e \<Rightarrow> (Inl e, p1, w4)
                      | Inr b \<Rightarrow>
                          let p2 = p1\<lparr>cur_batch := Some b\<rparr>;
                              w5 = emit [live [cur_batch p2, Some (Batch_ref a)]] w4
                          in (Inr (), p2\<lparr>connected := True\<rparr>, w5))))"

text \<open>
  The body of \<^verbatim>\<open>progress\<close> after the pull of the next batch: from the read of
  \<^verbatim>\<open>self._cur_batch\<close> to the optimizer step. Reading \<^verbatim>\<open>.dense_features\<close> of a tuple is an
  \<^verbatim>\<open>AttributeError\<close>. The staging step assigns \<^verbatim>\<open>next_batch\<close> to \<^verbatim>\<open>self._cur_batch\<close> and
  then assigns to it again the result of \<^verbatim>\<open>put_data_in_device(cur_batch, ...)\<close>.
\<close>

definition compute_and_stage ::
  "'a pipeline \<Rightarrow> 'a world \<Rightarrow> nat \<Rightarrow> bool \<Rightarrow> int \<Rightarrow> int \<Rightarrow> (error + unit) \<times> 'a pipeline \<times> 'a world" where
  "compute_and_stage p w nxt use_distributed_dataloader rank world_size =
     (case cur_batch p of
        None \<Rightarrow> (Inl AssertionError, p, w)
      | Some cur \<Rightarrow>
          let w1 = emit ([live [cur_batch p, Some cur, Some (Batch_ref nxt)]]
                         @ (if training p then [Zero_grad] else [])) w
          in (case wait_for_batch cur (memcpy_stream p) w1 of
                (Inl e, w2) \<Rightarrow> (Inl e, p, w2)
              | (Inr u, w2) \<Rightarrow>
                 (case cur of
                    Placed_tuple a d s l \<Rightarrow> (Inl AttributeError, p, w2)
                  | Batch_ref a \<Rightarrow>
                      let b = heap w2 a;
                          w3 = emit ([Forward a (dense_features b) (sparse_features b)]
                                     @ replicate (metrics p) (Metric_update a (labels b))
                                     @ (if training p then [Criterion a (labels b), Backward] else []))
                                    w2;
                          p1 = p\<lparr>cur_batch := Some (Batch_ref nxt)\<rparr>;
                          w4 = emit [live [cur_batch p1, Some cur, Some (Batch_ref nxt)]] w3
                      in (case put_data_in_device (heap w4) a (sparse_device p1) (dense_device p1)
                                 use_distributed_dataloader rank world_size True of
                            (reqs, res, h) \<Rightarrow>
                              let w5 = emit (map (Issued (memcpy_stream p1)) reqs) (w4\<lparr>heap := h\<rparr>)
                              in (case res of
                                    Inl e \<Rightarrow> (Inl e, p1, w5)
                                  | Inr placed \<Rightarrow>
                                      let p2 = p1\<lparr>cur_batch := Some placed\<rparr>;
                                          w6 = emit ([live [cur_batch p2, Some cur, Some (Batch_ref nxt)]]
                                                     @ (if training p then [Optimizer_step] else []))
                                                    w5
                                      in (Inr (), p2, w6))))))"

text \<open>
  \<^verbatim>\<open>progress\<close>. When \<^verbatim>\<open>_connected\<close> is false it calls \<^verbatim>\<open>self._connect(...)\<close>; if the
  attribute has been shadowed by a Boolean, calling it is a \<^verbatim>\<open>TypeError\<close>.
\<close>

definition pull_and_compute ::
  "'a pipeline \<Rightarrow> 'a world \<Rightarrow> bool \<Rightarrow> int \<Rightarrow> int \<Rightarrow> (error + unit) \<times> 'a pipeline \<times> 'a world" where
  "pull_and_compute p w use_distributed_dataloader rank world_size =
     (case next_batch w of
        (Inl e, w1) \<Rightarrow> (Inl e, p, w1)
      | (Inr nxt, w1) \<Rightarrow>
          compute_and_stage p (emit [live [cur_batch p, Some (Batch_ref nxt)]] w1) nxt
            use_distributed_dataloader rank world_size)"

definition progress ::
  "'a pipeline \<Rightarrow> 'a world \<Rightarrow> bool \<Rightarrow> int \<Rightarrow> int \<Rightarrow> (error + unit) \<times> 'a pipeline \<times> 'a world" where
  "progress p w use_distributed_dataloader rank world_size =
     (if \<not> connected p then
        (case connect_attr p of
           Some v \<Rightarrow> (Inl TypeError, p, w)
         | None \<Rightarrow>
            (case connect p w use_distributed_dataloader rank world_size of
               (Inl e, p1, w1) \<Rightarrow> (Inl e, p1, w1)
             | (Inr u, p1, w1) \<Rightarrow>
                 pull_and_compute p1 w1 use_distributed_dataloader rank world_size))
      else pull_and_compute p w use_distributed_dataloader rank world_size)"

subsection \<open>Notions used to state the properties\<close>

text \<open>The index \<^verbatim>\<open>[rank]\<close> selects, of \<open>world_size\<close> shards, when it is in range.\<close>

definition shard_index :: "int \<Rightarrow> int \<Rightarrow> nat" where
  "shard_index ws rank = nat (if rank < 0 then ws + rank else rank)"

text \<open>The batch object after \<^verbatim>\<open>put_data_in_device\<close> ran through its second branch.\<close>

definition placed_batch ::
  "'a batch \<Rightarrow> device option \<Rightarrow> device option \<Rightarrow> int \<Rightarrow> int \<Rightarrow> 'a batch" where
  "placed_batch b dd sd rank ws =
     \<lparr>dense_features = (tensor_to (dense_features b) dd)
        \<lparr>rows := section_rows (rows (dense_features b)) (nat ws) (shard_index ws rank)\<rparr>,
      sparse_features = tensor_to (sparse_features b) sd,
      labels = (tensor_to (labels b) dd)
        \<lparr>rows := section_rows (rows (labels b)) (nat ws) (shard_index ws rank)\<rparr>\<rparr>"

text \<open>The number of different batches among the references of a snapshot.\<close>

definition held :: "'a placed list \<Rightarrow> nat" where
  "held xs = length (remdups (map batch_of xs))"

definition wait_events :: "bool \<Rightarrow> nat \<Rightarrow> 'a event list" where
  "wait_events stream a = (if stream then [Wait_stream, Record_stream a] else [])"

text \<open>The batches pulled from the source and the batches fed to the model, in order.\<close>

fun pulled :: "'a event list \<Rightarrow> nat list" where
  "pulled [] = []"
| "pulled (Next_batch a # es) = a # pulled es"
| "pulled (e # es) = pulled es"

fun consumed :: "'a event list \<Rightarrow> nat list" where
  "consumed [] = []"
| "consumed (Forward a d s # es) = a # consumed es"
| "consumed (e # es) = consumed es"

text \<open>No forward computation runs while a transfer issued on the copy stream has not been
  waited for: \<open>busy\<close> is set by a request on the copy stream and cleared by the wait.\<close>

fun staged_ready :: "bool \<Rightarrow> 'a event list \<Rightarrow> bool" where
  "staged_ready busy [] = True"
| "staged_ready busy (Issued True r # es) = staged_ready True es"
| "staged_ready busy (Wait_stream # es) = staged_ready False es"
| "staged_ready busy (Forward a d s # es) = (\<not> busy \<and> staged_ready busy es)"
| "staged_ready busy (e # es) = staged_ready busy es"

text \<open>A store of batches with four dense rows and four labels each, on the host, and a
  world whose source yields the given objects.\<close>

definition example_heap :: "nat \<Rightarrow> nat batch" where
  "example_heap a =
     \<lparr>dense_features = \<lparr>device_of = Cpu, rows = [10 * a, 10 * a + 1, 10 * a + 2, 10 * a + 3]\<rparr>,
      sparse_features = \<lparr>device_of = Cpu, rows = [100 * a]\<rparr>,
      labels = \<lparr>device_of = Cpu, rows = [0, 1, 0, 1]\<rparr>\<rparr>"

definition example_world :: "nat list \<Rightarrow> nat world" where
  "example_world as = \<lparr>heap = example_heap, pending = as, trace = []\<rparr>"

definition example_engine :: "nat pipeline" where
  "example_engine =
     (TrainPipelineBase True 0 (Some Cpu) (Some (Cuda 0)))
       \<lparr>cur_batch := Some (Batch_ref 0), connected := True\<rparr>"

section \<open>The all-to-all exchange\<close>

text \<open>
  Modelled from the spec: the collective of \<^verbatim>\<open>recsys.utils.extended_distributed\<close> and
  \<^verbatim>\<open>recsys.modules.functional\<close>, which are not among the sources; only its test
  \<^verbatim>\<open>tests/test_comm.py\<close> is. A tensor is its shape together with its entries as nested
  arrays; the collective takes the inputs of all workers, worker \<open>r\<close> at position \<open>r\<close>.
\<close>

datatype comm_error = ShapeError | CommunicationError

datatype 'a nested = Scalar 'a | Array "'a nested list"

fun children :: "'a nested \<Rightarrow> 'a nested list" where
  "children (Array ts) = ts"
| "children (Scalar a) = []"

fun has_shape :: "nat list \<Rightarrow> 'a nested \<Rightarrow> bool" where
  "has_shape [] (Scalar a) = True"
| "has_shape (n # sh) (Array ts) = (length ts = n \<and> (\<forall>t\<in>set ts. has_shape sh t))"
| "has_shape sh t = False"

record 'a nd_tensor =
  dims :: "nat list"
  body :: "'a nested"

definition well_formed :: "'a nd_tensor \<Rightarrow> bool" where
  "well_formed x = has_shape (dims x) (body x)"

text \<open>All workers hold well-formed tensors of the one shape \<open>sh\<close>.\<close>

definition uniform :: "nat list \<Rightarrow> 'a nd_tensor list \<Rightarrow> bool" where
  "uniform sh xs = (\<forall>x\<in>set xs. dims x = sh \<and> well_formed x)"

text \<open>Modelled from the spec: step (1) of the forward operation of the absent all-to-all
  primitive, "split input into world_size equal chunks along scatter_dim". The result
  always has \<open>n\<close> chunks; chunk \<open>j\<close> holds the \<open>j\<close>-th block of \<open>extent div n\<close> slices along
  dimension \<open>d\<close>.\<close>

fun split_chunks :: "nat \<Rightarrow> nat \<Rightarrow> 'a nested \<Rightarrow> 'a nested list" where
  "split_chunks d n (Scalar a) = replicate n (Scalar a)"
| "split_chunks 0 n (Array ts) =
     map (\<lambda>j. Array (take (length ts div n) (drop (j * (length ts div n)) ts))) [0..<n]"
| "split_chunks (Suc d) n (Array ts) =
     map (\<lambda>j. Array (map (\<lambda>t. split_chunks d n t ! j) ts)) [0..<n]"

text \<open>Modelled from the spec: step (3) of the absent all-to-all primitive, "concatenate the
  world_size received chunks along gather_dim".\<close>

fun cat :: "nat \<Rightarrow> 'a nested list \<Rightarrow> 'a nested" where
  "cat 0 cs = Array (concat (map children cs))"
| "cat (Suc d) cs = Array (map (cat d) (transpose (map children cs)))"

text \<open>Modelled from the spec: the result size of the absent all-to-all primitive, "extent
  along scatter_dim divided by world_size; extent along gather_dim multiplied by
  world_size; all other dimensions unchanged".\<close>

definition out_dims :: "nat \<Rightarrow> nat \<Rightarrow> nat \<Rightarrow> nat list \<Rightarrow> nat list" where
  "out_dims world_size scatter_dim gather_dim sh =
     (let sh1 = sh[scatter_dim := sh ! scatter_dim div world_size]
      in sh1[gather_dim := sh1 ! gather_dim * world_size])"

text \<open>Modelled from the spec: step (2) of the absent all-to-all primitive, "each worker sends
  chunk j to worker j and receives chunk rank from every worker".\<close>

definition received_chunks :: "nat \<Rightarrow> 'a nd_tensor list \<Rightarrow> nat \<Rightarrow> 'a nested list" where
  "received_chunks scatter_dim inputs rank =
     map (\<lambda>x. split_chunks scatter_dim (length inputs) (body x) ! rank) inputs"

text \<open>Modelled from the spec: the forward operation \<^verbatim>\<open>all_to_all(input, scatter_dim,
  gather_dim)\<close> of the absent all-to-all primitive, on the inputs of all workers at once.
  It fails with \<^verbatim>\<open>ShapeError\<close> when the workers disagree on the shape, when a dimension
  is not one of the tensor, and when the extent along \<^verbatim>\<open>scatter_dim\<close> is not divisible by
  the world size. A failure of the transport is not modelled.\<close>

definition all_to_all ::
  "nat \<Rightarrow> nat \<Rightarrow> 'a nd_tensor list \<Rightarrow> comm_error + 'a nd_tensor list" where
  "all_to_all scatter_dim gather_dim inputs =
     (let world_size = length inputs in
      if \<exists>x\<in>set inputs. dims x \<noteq> dims (hd inputs) then Inl ShapeError
      else if \<exists>x\<in>set inputs. \<not> (scatter_dim < length (dims x) \<and> gather_dim < length (dims x))
        then Inl ShapeError
      else if \<exists>x\<in>set inputs. dims x ! scatter_dim mod world_size \<noteq> 0 then Inl ShapeError
      else Inr (map (\<lambda>rank.
                  \<lparr>dims = out_dims world_size scatter_dim gather_dim (dims (inputs ! rank)),
                   body = cat gather_dim (received_chunks scatter_dim inputs rank)\<rparr>)
                [0..<world_size]))"

text \<open>Modelled from the spec: the absent differentiable operator \<^verbatim>\<open>dual_all_to_all\<close>. Its
  forward pass is the forward operation; the gradient rule it registers is "the exact same
  collective with the two axis roles swapped", applied to the incoming gradient.\<close>

definition dual_all_to_all ::
  "nat \<Rightarrow> nat \<Rightarrow> 'a nd_tensor list \<Rightarrow> comm_error + 'a nd_tensor list" where
  "dual_all_to_all scatter_dim gather_dim inputs = all_to_all scatter_dim gather_dim inputs"

definition dual_all_to_all_backward ::
  "nat \<Rightarrow> nat \<Rightarrow> 'a nd_tensor list \<Rightarrow> comm_error + 'a nd_tensor list" where
  "dual_all_to_all_backward scatter_dim gather_dim grad_outputs =
     all_to_all gather_dim scatter_dim grad_outputs"

text \<open>The pairing of two tensors, and of the tensors of all workers: the sum of the
  products of corresponding entries. A linear map \<open>B\<close> is the adjoint of \<open>F\<close> when
  \<open>inner (F x) y = inner x (B y)\<close>.\<close>

fun dot :: "'a::semiring_0 nested \<Rightarrow> 'a nested \<Rightarrow> 'a"
  and dots :: "'a::semiring_0 nested list \<Rightarrow> 'a nested list \<Rightarrow> 'a" where
  "dot (Scalar a) (Scalar b) = a * b"
| "dot (Array xs) (Array ys) = dots xs ys"
| "dot (Scalar a) (Array ys) = 0"
| "dot (Array xs) (Scalar b) = 0"
| "dots [] ys = 0"
| "dots (x # xs) [] = 0"
| "dots (x # xs) (y # ys) = dot x y + dots xs ys"

definition inner :: "'a::semiring_0 nd_tensor list \<Rightarrow> 'a nd_tensor list \<Rightarrow> 'a" where
  "inner xs ys = dots (map body xs) (map body ys)"

text \<open>Two workers with inputs of shape \<open>(2, 1)\<close>, gradients of shape \<open>(1, 2)\<close>, and inputs
  whose extent 3 the world size does not divide.\<close>

definition example_inputs :: "int nd_tensor list" where
  "example_inputs =
     [\<lparr>dims = [2, 1], body = Array [Array [Scalar 1], Array [Scalar 2]]\<rparr>,
      \<lparr>dims = [2, 1], body = Array [Array [Scalar 3], Array [Scalar 4]]\<rparr>]"

definition example_grads :: "int nd_tensor list" where
  "example_grads =
     [\<lparr>dims = [1, 2], body = Array [Array [Scalar 5, Scalar 6]]\<rparr>,
      \<lparr>dims = [1, 2], body = Array [Array [Scalar 7, Scalar 8]]\<rparr>]"

definition example_odd :: "int nd_tensor list" where
  "example_odd =
     [\<lparr>dims = [3], body = Array [Scalar 1, Scalar 2, Scalar 3]\<rparr>,
      \<lparr>dims = [3], body = Array [Scalar 4, Scalar 5, Scalar 6]\<rparr>]"

section \<open>Properties of the placement\<close>

lemma split_shard_cases:
  "split_shard t ws rank =
    (if ws \<le> 0 then Inl RuntimeError
     else if 0 \<le> rank \<and> rank < ws
       then Inr (t\<lparr>rows := section_rows (rows t) (nat ws) (nat rank)\<rparr>)
     else if rank < 0 \<and> - ws \<le> rank
       then Inr (t\<lparr>rows := section_rows (rows t) (nat ws) (nat (ws + rank))\<rparr>)
     else Inl IndexError)"
  by (auto simp: split_shard_def tensor_split_def py_index_def Let_def nat_less_iff)

lemma put_dist:
  "put_data_in_device h a dd sd True rank ws nb =
     ([To Dense dd False, To Sparse sd False, To Label dd False],
      Inr (Placed_tuple a (tensor_to (dense_features (h a)) dd)
             (tensor_to (sparse_features (h a)) sd)
             (tensor_to (labels (h a)) dd)), h)"
  by (simp add: put_data_in_device_def)

lemma put_nondist:
  assumes "0 < ws" "- ws \<le> rank" "rank < ws"
  shows "put_data_in_device h a dd sd False rank ws nb =
     ([To Dense dd nb, To Label dd nb, To Sparse sd nb], Inr (Batch_ref a),
      h(a := placed_batch (h a) dd sd rank ws))"
  using assms
  by (cases dd; cases sd)
     (auto simp: put_data_in_device_def split_shard_cases Let_def shard_index_def
        tensor_to_def placed_batch_def fun_eq_iff)

lemma put_nondist_result:
  "fst (snd (put_data_in_device h a dd sd False rank ws nb)) = Inr x \<Longrightarrow> x = Batch_ref a"
  by (auto simp: put_data_in_device_def Let_def split: sum.splits)

lemma placed_batch_devices:
  "device_of (dense_features (placed_batch b (Some x) (Some y) rank ws)) = x"
  "device_of (labels (placed_batch b (Some x) (Some y) rank ws)) = x"
  "device_of (sparse_features (placed_batch b (Some x) (Some y) rank ws)) = y"
  by (simp_all add: placed_batch_def tensor_to_def)

lemma placed_batch_rows:
  "rows (dense_features (placed_batch b dd sd rank ws)) =
     section_rows (rows (dense_features b)) (nat ws) (shard_index ws rank)"
  "rows (labels (placed_batch b dd sd rank ws)) =
     section_rows (rows (labels b)) (nat ws) (shard_index ws rank)"
  "rows (sparse_features (placed_batch b dd sd rank ws)) = rows (sparse_features b)"
  by (cases dd; cases sd; simp add: placed_batch_def tensor_to_def)+

lemma section_rows_4_3:
  "section_rows [x0, x1, x2, x3] 3 0 = [x0, x1]"
  "section_rows [x0, x1, x2, x3] 3 (Suc 0) = [x2]"
  "section_rows [x0, x1, x2, x3] 3 2 = [x3]"
  by (simp_all add: section_rows_def Let_def)

text \<open>The sections of \<^verbatim>\<open>tensor_split\<close> are consecutive and cover the tensor: no row is
  dropped, whatever the size.\<close>

lemma concat_consecutive:
  assumes "off 0 = 0" and "\<And>i. i < k \<Longrightarrow> off (Suc i) = off i + len i"
  shows "concat (map (\<lambda>i. take (len i) (drop (off i) xs)) [0..<k]) = take (off k) xs"
  using assms(2)
proof (induction k)
  case 0
  then show ?case by (simp add: assms(1))
next
  case (Suc k)
  have "concat (map (\<lambda>i. take (len i) (drop (off i) xs)) [0..<k]) = take (off k) xs"
    using Suc by simp
  moreover have "take (off k + len k) xs = take (off k) xs @ take (len k) (drop (off k) xs)"
    by (rule take_add)
  moreover have "off (Suc k) = off k + len k" using Suc.prems by simp
  ultimately show ?case by simp
qed

lemma section_rows_partition:
  assumes "0 < n"
  shows "concat (map (section_rows xs n) [0..<n]) = xs"
proof -
  define q r where "q = length xs div n" and "r = length xs mod n"
  define len where "len i = (if i < r then q + 1 else q)" for i
  define off where "off i = (if i < r then i * (q + 1) else r * (q + 1) + (i - r) * q)" for i
  have r: "r < n" using assms by (simp add: r_def)
  have step: "off (Suc i) = off i + len i" for i
  proof (cases "Suc i < r")
    case True
    then show ?thesis by (simp add: off_def len_def)
  next
    case False
    show ?thesis
    proof (cases "i < r")
      case True
      with False have "r = Suc i" by simp
      then show ?thesis by (simp add: off_def len_def)
    next
      case False
      then have "Suc i - r = Suc (i - r)" by simp
      with False show ?thesis by (simp add: off_def len_def)
    qed
  qed
  have sec: "section_rows xs n i = take (len i) (drop (off i) xs)" for i
    by (simp add: section_rows_def Let_def len_def off_def q_def r_def)
  have "off n = r * (q + 1) + (n - r) * q" using r by (simp add: off_def)
  also have "\<dots> = r + (r + (n - r)) * q" by (simp add: algebra_simps)
  also have "\<dots> = r + n * q" using r by simp
  also have "\<dots> = length xs" by (simp add: q_def r_def)
  finally have "off n = length xs" .
  moreover have "concat (map (\<lambda>i. take (len i) (drop (off i) xs)) [0..<n]) = take (off n) xs"
  proof (rule concat_consecutive)
    show "off 0 = 0" by (simp add: off_def)
    show "off (Suc i) = off i + len i" for i by (rule step)
  qed
  moreover have "section_rows xs n = (\<lambda>i. take (len i) (drop (off i) xs))"
    by (rule ext) (rule sec)
  ultimately show ?thesis by simp
qed

lemma example_rows:
  "rows (dense_features (example_heap 0)) = [0, 1, 2, 3]"
  "rows (labels (example_heap 0)) = [0, 1, 0, 1]"
  by (simp_all add: example_heap_def)

section \<open>Properties of the engine\<close>

lemma next_batch_Cons:
  "pending w = a # as \<Longrightarrow>
     next_batch w = (Inr a, w\<lparr>pending := as, trace := trace w @ [Next_batch a]\<rparr>)"
  by (simp add: next_batch_def)

lemma next_batch_Nil: "pending w = [] \<Longrightarrow> next_batch w = (Inl StopIteration, w)"
  by (simp add: next_batch_def)

lemma connect_nondist:
  assumes "pending w = a # as" "0 < ws" "- ws \<le> rank" "rank < ws"
  shows "connect p w False rank ws =
     (Inr (), p\<lparr>cur_batch := Some (Batch_ref a), connected := True\<rparr>,
      w\<lparr>heap := (heap w)(a := placed_batch (heap w a) (sparse_device p) (dense_device p) rank ws),
        pending := as,
        trace := trace w @ [Next_batch a, live [cur_batch p, Some (Batch_ref a)],
                   live [Some (Batch_ref a), Some (Batch_ref a)],
                   Issued (memcpy_stream p) (To Dense (sparse_device p) True),
                   Issued (memcpy_stream p) (To Label (sparse_device p) True),
                   Issued (memcpy_stream p) (To Sparse (dense_device p) True),
                   live [Some (Batch_ref a), Some (Batch_ref a)]]\<rparr>)"
  using assms
  by (simp add: connect_def next_batch_Cons emit_def put_nondist Let_def)

lemma connect_dist:
  assumes "pending w = a # as"
  shows "connect p w True rank ws =
     (Inr (),
      p\<lparr>cur_batch := Some (Placed_tuple a
              (tensor_to (dense_features (heap w a)) (sparse_device p))
              (tensor_to (sparse_features (heap w a)) (dense_device p))
              (tensor_to (labels (heap w a)) (sparse_device p))),
        connected := True\<rparr>,
      w\<lparr>pending := as,
        trace := trace w @ [Next_batch a, live [cur_batch p, Some (Batch_ref a)],
                   live [Some (Batch_ref a), Some (Batch_ref a)],
                   Issued (memcpy_stream p) (To Dense (sparse_device p) False),
                   Issued (memcpy_stream p) (To Sparse (dense_device p) False),
                   Issued (memcpy_stream p) (To Label (sparse_device p) False),
                   live [Some (Placed_tuple a
                           (tensor_to (dense_features (heap w a)) (sparse_device p))
                           (tensor_to (sparse_features (heap w a)) (dense_device p))
                           (tensor_to (labels (heap w a)) (sparse_device p))),
                         Some (Batch_ref a)]]\<rparr>)"
  using assms
  by (simp add: connect_def next_batch_Cons emit_def put_dist Let_def)

lemma compute_tuple:
  "cur_batch p = Some (Placed_tuple a d s l) \<Longrightarrow>
     fst (compute_and_stage p w nxt ud rank ws) = Inl AttributeError"
  by (simp add: compute_and_stage_def wait_for_batch_def Let_def)

lemma pull_tuple:
  "cur_batch p = Some (Placed_tuple a d s l) \<Longrightarrow> pending w = b # bs \<Longrightarrow>
     fst (pull_and_compute p w ud rank ws) = Inl AttributeError"
  by (simp add: pull_and_compute_def next_batch_Cons compute_tuple)

lemma progress_fresh_dist:
  assumes "pending w = a # b # rest"
  shows "fst (progress (TrainPipelineBase tr m sdev ddev) w True rank ws) = Inl AttributeError"
  using assms
  by (simp add: progress_def TrainPipelineBase_def connect_dist pull_tuple)

lemma compute_nondist:
  assumes "cur_batch p = Some (Batch_ref a)" "0 < ws" "- ws \<le> rank" "rank < ws"
  shows "compute_and_stage p w nxt False rank ws =
     (Inr (), p,
      w\<lparr>heap := (heap w)(a := placed_batch (heap w a) (sparse_device p) (dense_device p) rank ws),
        trace := trace w @
          [live [Some (Batch_ref a), Some (Batch_ref a), Some (Batch_ref nxt)]]
          @ (if training p then [Zero_grad] else [])
          @ wait_events (memcpy_stream p) a
          @ [Forward a (dense_features (heap w a)) (sparse_features (heap w a))]
          @ replicate (metrics p) (Metric_update a (labels (heap w a)))
          @ (if training p then [Criterion a (labels (heap w a)), Backward] else [])
          @ [live [Some (Batch_ref nxt), Some (Batch_ref a), Some (Batch_ref nxt)],
             Issued (memcpy_stream p) (To Dense (sparse_device p) True),
             Issued (memcpy_stream p) (To Label (sparse_device p) True),
             Issued (memcpy_stream p) (To Sparse (dense_device p) True),
             live [Some (Batch_ref a), Some (Batch_ref a), Some (Batch_ref nxt)]]
          @ (if training p then [Optimizer_step] else [])\<rparr>)"
  using assms
  by (simp add: compute_and_stage_def wait_for_batch_def emit_def put_nondist Let_def
        wait_events_def)

lemma progress_connected_nondist:
  assumes "connected p" "cur_batch p = Some (Batch_ref a)" "pending w = nxt # rest"
     "0 < ws" "- ws \<le> rank" "rank < ws"
  shows "progress p w False rank ws =
     (Inr (), p,
      w\<lparr>heap := (heap w)(a := placed_batch (heap w a) (sparse_device p) (dense_device p) rank ws),
        pending := rest,
        trace := trace w @ [Next_batch nxt, live [Some (Batch_ref a), Some (Batch_ref nxt)],
          live [Some (Batch_ref a), Some (Batch_ref a), Some (Batch_ref nxt)]]
          @ (if training p then [Zero_grad] else [])
          @ wait_events (memcpy_stream p) a
          @ [Forward a (dense_features (heap w a)) (sparse_features (heap w a))]
          @ replicate (metrics p) (Metric_update a (labels (heap w a)))
          @ (if training p then [Criterion a (labels (heap w a)), Backward] else [])
          @ [live [Some (Batch_ref nxt), Some (Batch_ref a), Some (Batch_ref nxt)],
             Issued (memcpy_stream p) (To Dense (sparse_device p) True),
             Issued (memcpy_stream p) (To Label (sparse_device p) True),
             Issued (memcpy_stream p) (To Sparse (dense_device p) True),
             live [Some (Batch_ref a), Some (Batch_ref a), Some (Batch_ref nxt)]]
          @ (if training p then [Optimizer_step] else [])\<rparr>)"
  using assms
  by (simp add: progress_def pull_and_compute_def next_batch_Cons emit_def compute_nondist)

lemma progress_connected_exhausted:
  assumes "connected p" "pending w = []"
  shows "progress p w ud rank ws = (Inl StopIteration, p, w)"
  using assms by (simp add: progress_def pull_and_compute_def next_batch_Nil)

lemma pull_nondist:
  assumes "cur_batch p = Some (Batch_ref a)" "pending w = nxt # rest"
     "0 < ws" "- ws \<le> rank" "rank < ws"
  shows "fst (pull_and_compute p w False rank ws) = Inr ()"
  using assms by (simp add: pull_and_compute_def next_batch_Cons compute_nondist)

lemma progress_fresh_nondist:
  assumes "pending w = a # b # rest" "0 < ws" "- ws \<le> rank" "rank < ws"
  shows "fst (progress (TrainPipelineBase tr m sdev ddev) w False rank ws) = Inr ()"
  using assms
  by (simp add: progress_def TrainPipelineBase_def connect_nondist pull_nondist)

lemma pulled_append: "pulled (xs @ ys) = pulled xs @ pulled ys"
  by (induction xs rule: pulled.induct) simp_all

lemma consumed_append: "consumed (xs @ ys) = consumed xs @ consumed ys"
  by (induction xs rule: consumed.induct) simp_all

lemma pulled_replicate: "pulled (replicate n (Metric_update a l)) = []"
  by (induction n) simp_all

lemma consumed_replicate: "consumed (replicate n (Metric_update a l)) = []"
  by (induction n) simp_all

lemma staged_ready_replicate:
  "staged_ready b (replicate n (Metric_update a l) @ es) = staged_ready b es"
  by (induction n) simp_all

lemma three_batches_run:
  assumes "pending w = [a0, a1, a2]" and "trace w = []"
    and "0 < ws" and "- ws \<le> rank" and "rank < ws"
  shows "case connect (TrainPipelineBase tr m sd dd) w False rank ws of (r0, p0, w0) \<Rightarrow>
         case progress p0 w0 False rank ws of (r1, p1, w1) \<Rightarrow>
         case progress p1 w1 False rank ws of (r2, p2, w2) \<Rightarrow>
         case progress p2 w2 False rank ws of (r3, p3, w3) \<Rightarrow>
           r0 = Inr () \<and> r1 = Inr () \<and> r2 = Inr () \<and> r3 = Inl StopIteration
           \<and> pulled (trace w0) = [a0]
           \<and> trace w1 ! length (trace w0) = Next_batch a1
           \<and> trace w2 ! length (trace w1) = Next_batch a2
           \<and> pulled (trace w3) = [a0, a1, a2]
           \<and> consumed (trace w0) = [] \<and> consumed (trace w1) = [a0]
           \<and> Forward a0 (dense_features (heap w0 a0)) (sparse_features (heap w0 a0))
                \<in> set (trace w1)
           \<and> consumed (trace w2) = [a0, a0]
           \<and> trace w3 = trace w2
           \<and> staged_ready False (trace w3)"
proof -
  let ?p = "TrainPipelineBase tr m sd dd :: 'a pipeline"
  have valid: "0 < ws" "- ws \<le> rank" "rank < ws" by fact+
  define p0 where "p0 = ?p\<lparr>cur_batch := Some (Batch_ref a0), connected := True\<rparr>"
  obtain w0 where c: "connect ?p w False rank ws = (Inr (), p0, w0)"
    and w0: "pending w0 = [a1, a2]"
       "trace w0 = [Next_batch a0, live [None, Some (Batch_ref a0)],
                   live [Some (Batch_ref a0), Some (Batch_ref a0)],
                   Issued (memcpy_stream p0) (To Dense (sparse_device p0) True),
                   Issued (memcpy_stream p0) (To Label (sparse_device p0) True),
                   Issued (memcpy_stream p0) (To Sparse (dense_device p0) True),
                   live [Some (Batch_ref a0), Some (Batch_ref a0)]]"
    using connect_nondist[OF assms(1) valid, of ?p] assms(2)
    by (simp add: TrainPipelineBase_def p0_def)
  have p0: "connected p0" "cur_batch p0 = Some (Batch_ref a0)"
    by (simp_all add: p0_def)
  obtain w1 where s1: "progress p0 w0 False rank ws = (Inr (), p0, w1)"
    and w1: "pending w1 = [a2]"
       "trace w1 = trace w0 @ [Next_batch a1, live [Some (Batch_ref a0), Some (Batch_ref a1)],
          live [Some (Batch_ref a0), Some (Batch_ref a0), Some (Batch_ref a1)]]
          @ (if training p0 then [Zero_grad] else [])
          @ wait_events (memcpy_stream p0) a0
          @ [Forward a0 (dense_features (heap w0 a0)) (sparse_features (heap w0 a0))]
          @ replicate (metrics p0) (Metric_update a0 (labels (heap w0 a0)))
          @ (if training p0 then [Criterion a0 (labels (heap w0 a0)), Backward] else [])
          @ [live [Some (Batch_ref a1), Some (Batch_ref a0), Some (Batch_ref a1)],
             Issued (memcpy_stream p0) (To Dense (sparse_device p0) True),
             Issued (memcpy_stream p0) (To Label (sparse_device p0) True),
             Issued (memcpy_stream p0) (To Sparse (dense_device p0) True),
             live [Some (Batch_ref a0), Some (Batch_ref a0), Some (Batch_ref a1)]]
          @ (if training p0 then [Optimizer_step] else [])"
    using progress_connected_nondist[OF p0 w0(1) valid] by simp
  obtain w2 where s2: "progress p0 w1 False rank ws = (Inr (), p0, w2)"
    and w2: "pending w2 = []"
       "trace w2 = trace w1 @ [Next_batch a2, live [Some (Batch_ref a0), Some (Batch_ref a2)],
          live [Some (Batch_ref a0), Some (Batch_ref a0), Some (Batch_ref a2)]]
          @ (if training p0 then [Zero_grad] else [])
          @ wait_events (memcpy_stream p0) a0
          @ [Forward a0 (dense_features (heap w1 a0)) (sparse_features (heap w1 a0))]
          @ replicate (metrics p0) (Metric_update a0 (labels (heap w1 a0)))
          @ (if training p0 then [Criterion a0 (labels (heap w1 a0)), Backward] else [])
          @ [live [Some (Batch_ref a2), Some (Batch_ref a0), Some (Batch_ref a2)],
             Issued (memcpy_stream p0) (To Dense (sparse_device p0) True),
             Issued (memcpy_stream p0) (To Label (sparse_device p0) True),
             Issued (memcpy_stream p0) (To Sparse (dense_device p0) True),
             live [Some (Batch_ref a0), Some (Batch_ref a0), Some (Batch_ref a2)]]
          @ (if training p0 then [Optimizer_step] else [])"
    using progress_connected_nondist[OF p0 w1(1) valid] by simp
  have s3: "progress p0 w2 False rank ws = (Inl StopIteration, p0, w2)"
    using progress_connected_exhausted[OF p0(1) w2(1)] .
  have t1: "trace w1 ! length (trace w0) = Next_batch a1"
    by (simp add: w1(2) nth_append)
  have t2: "trace w2 ! length (trace w1) = Next_batch a2"
    by (simp add: w2(2) nth_append)
  have pl0: "pulled (trace w0) = [a0]" "consumed (trace w0) = []"
    by (simp_all add: w0 live_def)
  have pl1: "pulled (trace w1) = [a0, a1]" "consumed (trace w1) = [a0]"
    by (simp_all add: w1 pl0 pulled_append consumed_append pulled_replicate
          consumed_replicate live_def wait_events_def)
  have pl2: "pulled (trace w2) = [a0, a1, a2]" "consumed (trace w2) = [a0, a0]"
    by (simp_all add: w2 pl1 pulled_append consumed_append pulled_replicate
          consumed_replicate live_def wait_events_def)
  have fw: "Forward a0 (dense_features (heap w0 a0)) (sparse_features (heap w0 a0))
              \<in> set (trace w1)"
    by (simp add: w1)
  have sr: "staged_ready False (trace w2)"
    by (cases "memcpy_stream p0")
       (simp_all add: w2 w1 w0 live_def wait_events_def staged_ready_replicate)
  show ?thesis
    by (simp add: c s1 s2 s3 t1 t2 pl0 pl1 pl2 fw sr)
qed

text \<open>
  C1 (as amended). On a source \<open>[B0, B1, B2]\<close>, after one connect in non-distributed mode:
  the first two calls of progress return and the third ends with the end-of-data signal at
  its pull, leaving the trace as it was; the source is pulled in the order B0, B1, B2, each
  once, and each call begins with its pull; the first call feeds B0, as connect placed it,
  to the forward computation; two forward computations happen in all and B2 is fed to
  none; no forward computation runs while a transfer on the copy stream is not yet waited
  for.
\<close>

theorem progress_on_three_batches:
  assumes "pending w = [a0, a1, a2]" and "trace w = []" and "distinct [a0, a1, a2]"
    and "0 < ws" and "- ws \<le> rank" and "rank < ws"
  shows "case connect (TrainPipelineBase tr m sd dd) w False rank ws of (r0, p0, w0) \<Rightarrow>
         case progress p0 w0 False rank ws of (r1, p1, w1) \<Rightarrow>
         case progress p1 w1 False rank ws of (r2, p2, w2) \<Rightarrow>
         case progress p2 w2 False rank ws of (r3, p3, w3) \<Rightarrow>
           r0 = Inr () \<and> r1 = Inr () \<and> r2 = Inr () \<and> r3 = Inl StopIteration
           \<and> trace w3 = trace w2
           \<and> pulled (trace w0) = [a0]
           \<and> trace w1 ! length (trace w0) = Next_batch a1
           \<and> trace w2 ! length (trace w1) = Next_batch a2
           \<and> pulled (trace w3) = [a0, a1, a2]
           \<and> consumed (trace w0) = [] \<and> consumed (trace w1) = [a0]
           \<and> Forward a0 (dense_features (heap w0 a0)) (sparse_features (heap w0 a0))
                \<in> set (trace w1)
           \<and> length (consumed (trace w3)) = 2 \<and> a2 \<notin> set (consumed (trace w3))
           \<and> staged_ready False (trace w3)"
  using three_batches_run [OF assms(1,2,4,5,6), of tr m sd dd] assms(3)
  by (auto split: prod.splits)

lemma example_world_simps:
  "pending (example_world as) = as" "trace (example_world as) = []"
  by (simp_all add: example_world_def)

theorem progress_on_three_batches_witness:
  "case connect (TrainPipelineBase True 0 (Some Cpu) (Some (Cuda 0))) (example_world [0, 1, 2])
          False 0 1 of (r0, p0, w0) \<Rightarrow>
         case progress p0 w0 False 0 1 of (r1, p1, w1) \<Rightarrow>
         case progress p1 w1 False 0 1 of (r2, p2, w2) \<Rightarrow>
         case progress p2 w2 False 0 1 of (r3, p3, w3) \<Rightarrow>
           r0 = Inr () \<and> r1 = Inr () \<and> r2 = Inr () \<and> r3 = Inl StopIteration
           \<and> trace w3 = trace w2
           \<and> pulled (trace w0) = [0]
           \<and> trace w1 ! length (trace w0) = Next_batch 1
           \<and> trace w2 ! length (trace w1) = Next_batch 2
           \<and> pulled (trace w3) = [0, 1, 2]
           \<and> consumed (trace w0) = [] \<and> consumed (trace w1) = [0]
           \<and> Forward 0 (dense_features (heap w0 0)) (sparse_features (heap w0 0))
                \<in> set (trace w1)
           \<and> length (consumed (trace w3)) = 2 \<and> 2 \<notin> set (consumed (trace w3))
           \<and> staged_ready False (trace w3)"
  by (rule progress_on_three_batches [of "example_world [0, 1, 2]" 0 1 2 1 0 True 0
            "Some Cpu" "Some (Cuda 0)"])
     (simp_all add: example_world_simps)

theorem progress_on_three_batches_counterexample:
  "case connect (TrainPipelineBase True 0 (Some Cpu) (Some (Cuda 0))) (example_world [0, 1, 2])
          False 0 1 of (r0, p0, w0) \<Rightarrow>
         case progress p0 w0 False 0 1 of (r1, p1, w1) \<Rightarrow>
         case progress p1 w1 False 0 1 of (r2, p2, w2) \<Rightarrow>
         case progress p2 w2 False 0 1 of (r3, p3, w3) \<Rightarrow>
           r3 = Inl StopIteration \<and> consumed (trace w3) = [0, 0]
           \<and> consumed (trace w3) \<noteq> [0, 1, 2]"
proof -
  have "pending (example_world [0, 1, 2]) = [0, 1, 2]" "trace (example_world [0, 1, 2]) = []"
    by (simp_all add: example_world_simps)
  from three_batches_run [OF this, of 1 0 True 0 "Some Cpu" "Some (Cuda 0)"]
  show ?thesis by (auto split: prod.splits)
qed

text \<open>
  C2 (what the code does). The engine hands its sparse device to the placement as the
  dense target and its dense device as the sparse target: after connect, and after the
  staging step of progress, the dense features and labels of the placed batch are on the
  engine's sparse device and the sparse features on its dense device. The staging step
  places the batch that was just computed.
\<close>

theorem engine_swaps_target_devices:
  assumes "sparse_device p = Some sdv" and "dense_device p = Some ddv"
    and "0 < ws" and "- ws \<le> rank" and "rank < ws" and "pending w = a # as"
  shows "(case connect p w False rank ws of (r, p', w') \<Rightarrow>
            r = Inr () \<and> cur_batch p' = Some (Batch_ref a)
            \<and> device_of (dense_features (heap w' a)) = sdv
            \<and> device_of (labels (heap w' a)) = sdv
            \<and> device_of (sparse_features (heap w' a)) = ddv)
       \<and> (connected p \<and> cur_batch p = Some (Batch_ref c) \<longrightarrow>
           (case progress p w False rank ws of (r, p', w') \<Rightarrow>
            r = Inr () \<and> cur_batch p' = Some (Batch_ref c)
            \<and> device_of (dense_features (heap w' c)) = sdv
            \<and> device_of (labels (heap w' c)) = sdv
            \<and> device_of (sparse_features (heap w' c)) = ddv))"
  using assms
  by (simp add: connect_nondist progress_connected_nondist placed_batch_devices)

lemma example_engine_simps:
  "sparse_device example_engine = Some Cpu" "dense_device example_engine = Some (Cuda 0)"
  "connected example_engine" "cur_batch example_engine = Some (Batch_ref 0)"
  by (simp_all add: example_engine_def TrainPipelineBase_def)

theorem engine_swaps_target_devices_witness:
  "(case connect example_engine (example_world [1, 2]) False 0 1 of (r, p', w') \<Rightarrow>
            r = Inr () \<and> cur_batch p' = Some (Batch_ref 1)
            \<and> device_of (dense_features (heap w' 1)) = Cpu
            \<and> device_of (labels (heap w' 1)) = Cpu
            \<and> device_of (sparse_features (heap w' 1)) = Cuda 0)
   \<and> (case progress example_engine (example_world [1, 2]) False 0 1 of (r, p', w') \<Rightarrow>
            r = Inr () \<and> cur_batch p' = Some (Batch_ref 0)
            \<and> device_of (dense_features (heap w' 0)) = Cpu
            \<and> device_of (labels (heap w' 0)) = Cpu
            \<and> device_of (sparse_features (heap w' 0)) = Cuda 0)"
proof -
  have v: "(0::int) < 1" "- 1 \<le> (0::int)" by simp_all
  have p: "pending (example_world [1, 2]) = 1 # [2]" by (simp add: example_world_simps)
  note th = engine_swaps_target_devices [OF example_engine_simps(1,2) v(1) v(2) v(1) p, of 0]
  show ?thesis
    apply (rule conjI)
     apply (rule conjunct1 [OF th])
    apply (rule mp [OF conjunct2 [OF th]])
    apply (simp add: example_engine_simps)
    done
qed

text \<open>
  C6 (as amended). With world size 3 and four rows of dense features and of labels, the split
  path of the placement raises nothing: rank 0 keeps rows 0 and 1, rank 1 keeps row 2 and
  rank 2 keeps row 3, so the shards have 2, 1 and 1 rows and together are the four rows.
\<close>

theorem uneven_split_keeps_all_rows:
  assumes "rows (dense_features (h a)) = [d0, d1, d2, d3]"
    and "rows (labels (h a)) = [l0, l1, l2, l3]"
  shows "(case put_data_in_device h a dd sd False 0 3 nb of (reqs, res, h') \<Rightarrow>
            res = Inr (Batch_ref a) \<and> rows (dense_features (h' a)) = [d0, d1]
            \<and> rows (labels (h' a)) = [l0, l1])
       \<and> (case put_data_in_device h a dd sd False 1 3 nb of (reqs, res, h') \<Rightarrow>
            res = Inr (Batch_ref a) \<and> rows (dense_features (h' a)) = [d2]
            \<and> rows (labels (h' a)) = [l2])
       \<and> (case put_data_in_device h a dd sd False 2 3 nb of (reqs, res, h') \<Rightarrow>
            res = Inr (Batch_ref a) \<and> rows (dense_features (h' a)) = [d3]
            \<and> rows (labels (h' a)) = [l3])"
  using assms
  by (simp add: put_nondist placed_batch_rows shard_index_def section_rows_4_3)

theorem uneven_split_keeps_all_rows_witness:
  "(case put_data_in_device example_heap 0 (Some (Cuda 0)) (Some Cpu) False 0 3 True of
      (reqs, res, h') \<Rightarrow>
            res = Inr (Batch_ref 0) \<and> rows (dense_features (h' 0)) = [0, 1]
            \<and> rows (labels (h' 0)) = [0, 1])
       \<and> (case put_data_in_device example_heap 0 (Some (Cuda 0)) (Some Cpu) False 1 3 True of
      (reqs, res, h') \<Rightarrow>
            res = Inr (Batch_ref 0) \<and> rows (dense_features (h' 0)) = [2]
            \<and> rows (labels (h' 0)) = [0])
       \<and> (case put_data_in_device example_heap 0 (Some (Cuda 0)) (Some Cpu) False 2 3 True of
      (reqs, res, h') \<Rightarrow>
            res = Inr (Batch_ref 0) \<and> rows (dense_features (h' 0)) = [3]
            \<and> rows (labels (h' 0)) = [1])"
  by (rule uneven_split_keeps_all_rows
        [of example_heap 0 0 1 2 3 0 1 0 1 "Some (Cuda 0)" "Some Cpu" True])
     (fact example_rows)+

theorem uneven_split_counterexample:
  "fst (snd (put_data_in_device example_heap 0 (Some (Cuda 0)) (Some Cpu) False 0 3 True))
     = Inr (Batch_ref 0)
   \<and> length (rows (dense_features (example_heap 0))) = 4
   \<and> rows (dense_features
        (snd (snd (put_data_in_device example_heap 0 (Some (Cuda 0)) (Some Cpu) False 0 3 True)) 0))
      = [0, 1]"
  by (simp add: put_nondist placed_batch_rows shard_index_def example_rows section_rows_4_3)

text \<open>
  C7 (what the code does). After reset, progress never connects again. An engine that was
  not connected fails with \<^verbatim>\<open>TypeError\<close> and touches nothing; an engine that was connected
  stays connected, so progress skips the connect, pulls a batch from the source and fails
  its assertion on the empty current batch (or ends with the end-of-data signal when the
  source is empty).
\<close>

theorem progress_after_reset_fails:
  "(\<not> connected p \<longrightarrow> progress (reset p) w ud rank ws = (Inl TypeError, reset p, w))
   \<and> (connected p \<longrightarrow> connected (reset p)
        \<and> (pending w = [] \<longrightarrow> fst (progress (reset p) w ud rank ws) = Inl StopIteration)
        \<and> (pending w = a # as \<longrightarrow>
              fst (progress (reset p) w ud rank ws) = Inl AssertionError
              \<and> pending (snd (snd (progress (reset p) w ud rank ws))) = as))"
  by (simp add: progress_def reset_def pull_and_compute_def next_batch_def
        compute_and_stage_def emit_def)

theorem progress_after_reset_fails_witness:
  "progress (reset (TrainPipelineBase True 0 (Some Cpu) (Some (Cuda 0)))) (example_world [0, 1])
      False 0 1
     = (Inl TypeError, reset (TrainPipelineBase True 0 (Some Cpu) (Some (Cuda 0))),
        example_world [0, 1])
   \<and> connected (reset example_engine)
   \<and> fst (progress (reset example_engine) (example_world [1, 2]) False 0 1) = Inl AssertionError
   \<and> pending (snd (snd (progress (reset example_engine) (example_world [1, 2]) False 0 1))) = [2]"
proof -
  have n: "\<not> connected (TrainPipelineBase True 0 (Some Cpu) (Some (Cuda 0)) :: nat pipeline)"
    by (simp add: TrainPipelineBase_def)
  have p: "pending (example_world [1, 2]) = 1 # [2]" by (simp add: example_world_simps)
  from progress_after_reset_fails
         [of "TrainPipelineBase True 0 (Some Cpu) (Some (Cuda 0))" "example_world [0, 1]" False 0 1]
       progress_after_reset_fails [of example_engine "example_world [1, 2]" False 0 1 1 "[2]"]
       n p example_engine_simps(3)
  show ?thesis by blast
qed

lemma live_snapshots_bounded:
  assumes "progress p w ud rank ws = (r, p', w')"
    and "Live xs \<in> set (drop (length (trace w)) (trace w'))"
  shows "held xs \<le> 2"
  using assms
  by (auto simp: progress_def connect_def pull_and_compute_def compute_and_stage_def
      next_batch_def emit_def wait_for_batch_def live_def held_def Let_def put_data_in_device_def
      split: if_splits option.splits list.splits sum.splits prod.splits placed.splits)

lemma put_not_stop:
  "fst (snd (put_data_in_device h a dd sd isd rank ws nb)) \<noteq> Inl StopIteration"
  by (auto simp: put_data_in_device_def split_shard_cases Let_def split: sum.splits if_splits)

lemma put_not_stop_triple:
  "put_data_in_device h a dd sd isd rank ws nb = (reqs, Inl StopIteration, h') \<Longrightarrow> False"
  using put_not_stop [of h a dd sd isd rank ws nb] by simp

lemma compute_not_stop:
  "fst (compute_and_stage p w nxt ud rank ws) \<noteq> Inl StopIteration"
  by (auto simp: compute_and_stage_def wait_for_batch_def Let_def
        dest: put_not_stop_triple
        split: option.splits prod.splits sum.splits placed.splits if_splits)

lemma progress_connected_stop:
  assumes "connected p" and "progress p w ud rank ws = (Inl StopIteration, p', w')"
  shows "p' = p \<and> w' = w"
proof (cases "pending w")
  case Nil
  with assms show ?thesis by (simp add: progress_connected_exhausted)
next
  case (Cons nxt rest)
  have "fst (progress p w ud rank ws) \<noteq> Inl StopIteration"
    using assms(1) Cons compute_not_stop
    by (simp add: progress_def pull_and_compute_def next_batch_Cons)
  with assms(2) show ?thesis by simp
qed

text \<open>
  C8 (as amended). At every point of a call of progress the references held by the engine
  and the running methods name at most two batches. When a connected engine's call ends
  with the end-of-data signal, the engine is left exactly as it was, so it goes on holding
  the current batch it held before the call.
\<close>

theorem held_batches_in_progress:
  assumes "progress p w ud rank ws = (r, p', w')"
  shows "(Live xs \<in> set (drop (length (trace w)) (trace w')) \<longrightarrow> held xs \<le> 2)
       \<and> (connected p \<and> r = Inl StopIteration \<longrightarrow> p' = p \<and> cur_batch p' = cur_batch p)"
  using assms live_snapshots_bounded [of p w ud rank ws r p' w' xs]
    progress_connected_stop [of p w ud rank ws p' w']
  by blast

theorem held_batches_in_progress_witness:
  "held [Batch_ref 0, Batch_ref (1::nat) :: nat placed] \<le> 2
   \<and> progress example_engine (example_world []) False 0 1
       = (Inl StopIteration, example_engine, example_world [])
   \<and> cur_batch example_engine = Some (Batch_ref 0)"
proof -
  have v: "(0::int) < 1" "- 1 \<le> (0::int)" by simp_all
  obtain w' where s: "progress example_engine (example_world [1, 2]) False 0 1
       = (Inr (), example_engine, w')"
    and t: "trace w' ! 1 = live [Some (Batch_ref 0), Some (Batch_ref 1)]" "1 < length (trace w')"
    using progress_connected_nondist [OF example_engine_simps(3,4) _ v(1) v(2) v(1),
        of "example_world [1, 2]" 1 "[2]"]
    by (simp add: example_world_simps)
  have "Live [Batch_ref 0, Batch_ref 1] \<in> set (drop (length (trace (example_world [1, 2]))) (trace w'))"
    using t nth_mem [of 1 "trace w'"] by (simp add: example_world_simps live_def)
  with held_batches_in_progress [OF s, of "[Batch_ref 0, Batch_ref 1]"]
  have a: "held [Batch_ref 0, Batch_ref (1::nat) :: nat placed] \<le> 2" by blast
  have e: "progress example_engine (example_world []) False 0 1
       = (Inl StopIteration, example_engine, example_world [])"
    by (rule progress_connected_exhausted) (simp_all add: example_engine_simps example_world_simps)
  from held_batches_in_progress [OF e, of "[]"] example_engine_simps(3,4)
  have "cur_batch example_engine = Some (Batch_ref 0)" by blast
  with a e show ?thesis by blast
qed

theorem exhausted_engine_counterexample:
  "case progress (TrainPipelineBase True 0 (Some Cpu) (Some (Cuda 0))) (example_world [0]) False 0 1
     of (r, p', w') \<Rightarrow>
       r = Inl StopIteration \<and> pending w' = [] \<and> cur_batch p' = Some (Batch_ref 0)
       \<and> held [Batch_ref 0 :: nat placed] = 1"
proof -
  have v: "(0::int) < 1" "- 1 \<le> (0::int)" by simp_all
  have p: "pending (example_world [0]) = 0 # []" by (simp add: example_world_simps)
  show ?thesis
    by (simp add: progress_def TrainPipelineBase_def connect_nondist [OF p v(1) v(2) v(1)]
          pull_and_compute_def next_batch_Nil held_def)
qed

text \<open>
  C9 (what the code does). In distributed mode the three transfers of the placement are
  requested with the blocking default, also when the caller passes
  \<^verbatim>\<open>non_blocking=True\<close>.
\<close>

theorem distributed_transfers_blocking:
  "fst (put_data_in_device h a dd sd True rank ws True) =
     [To Dense dd False, To Sparse sd False, To Label dd False]"
  by (simp add: put_dist)

lemma put_nondist_valid:
  "fst (snd (put_data_in_device h a dd sd False rank ws nb)) = Inr x \<Longrightarrow>
     0 < ws \<and> - ws \<le> rank \<and> rank < ws"
  by (auto simp: put_data_in_device_def split_shard_cases Let_def split: sum.splits if_splits)

lemma put_nondist_returned:
  assumes "fst (snd (put_data_in_device h a dd sd False rank ws nb)) = Inr x"
  shows "x = Batch_ref a
       \<and> put_data_in_device h a dd sd False rank ws nb =
           ([To Dense dd nb, To Label dd nb, To Sparse sd nb], Inr (Batch_ref a),
            h(a := placed_batch (h a) dd sd rank ws))"
proof -
  from put_nondist_valid [OF assms] have v: "0 < ws" "- ws \<le> rank" "rank < ws" by simp_all
  from put_nondist [OF v, of h a dd sd nb] assms show ?thesis by simp
qed

lemma consumed_live [simp]: "consumed (live xs # es) = consumed es"
  by (simp add: live_def)

lemma compute_tuple_state:
  assumes "cur_batch p = Some (Placed_tuple a d s l)"
  shows "fst (compute_and_stage p w nxt ud rank ws) = Inl AttributeError
       \<and> fst (snd (compute_and_stage p w nxt ud rank ws)) = p
       \<and> heap (snd (snd (compute_and_stage p w nxt ud rank ws))) = heap w
       \<and> pending (snd (snd (compute_and_stage p w nxt ud rank ws))) = pending w
       \<and> consumed (trace (snd (snd (compute_and_stage p w nxt ud rank ws)))) = consumed (trace w)"
  using assms
  by (simp add: compute_and_stage_def wait_for_batch_def Let_def emit_def consumed_append)

lemma pull_tuple_state:
  assumes "cur_batch p = Some (Placed_tuple a d s l)" and "pending w = b # bs"
  shows "fst (pull_and_compute p w ud rank ws) = Inl AttributeError
       \<and> fst (snd (pull_and_compute p w ud rank ws)) = p
       \<and> heap (snd (snd (pull_and_compute p w ud rank ws))) = heap w
       \<and> pending (snd (snd (pull_and_compute p w ud rank ws))) = bs
       \<and> consumed (trace (snd (snd (pull_and_compute p w ud rank ws)))) = consumed (trace w)"
  using assms(2) compute_tuple_state [OF assms(1)]
  by (simp add: pull_and_compute_def next_batch_Cons emit_def consumed_append)

lemma progress_tuple_fails:
  assumes "connected p" "cur_batch p = Some (Placed_tuple a d s l)" "pending w = b # bs"
  shows "fst (progress p w ud rank ws) = Inl AttributeError
       \<and> fst (snd (progress p w ud rank ws)) = p
       \<and> heap (snd (snd (progress p w ud rank ws))) = heap w
       \<and> pending (snd (snd (progress p w ud rank ws))) = bs
       \<and> consumed (trace (snd (snd (progress p w ud rank ws)))) = consumed (trace w)"
  using assms(1) pull_tuple_state [OF assms(2,3)] by (simp add: progress_def)

lemma progress_fresh_dist_state:
  assumes "pending w = a # b # rest"
  shows "fst (progress (TrainPipelineBase tr m sdev ddev) w True rank ws) = Inl AttributeError
       \<and> cur_batch (fst (snd (progress (TrainPipelineBase tr m sdev ddev) w True rank ws))) =
            Some (Placed_tuple a (tensor_to (dense_features (heap w a)) sdev)
                    (tensor_to (sparse_features (heap w a)) ddev)
                    (tensor_to (labels (heap w a)) sdev))
       \<and> heap (snd (snd (progress (TrainPipelineBase tr m sdev ddev) w True rank ws))) = heap w
       \<and> pending (snd (snd (progress (TrainPipelineBase tr m sdev ddev) w True rank ws))) = rest
       \<and> consumed (trace (snd (snd (progress (TrainPipelineBase tr m sdev ddev) w True rank ws))))
            = consumed (trace w)"
proof -
  let ?p = "TrainPipelineBase tr m sdev ddev :: 'a pipeline"
  let ?t = "Placed_tuple a (tensor_to (dense_features (heap w a)) sdev)
                    (tensor_to (sparse_features (heap w a)) ddev)
                    (tensor_to (labels (heap w a)) sdev)"
  obtain w1 where c: "connect ?p w True rank ws =
      (Inr (), ?p\<lparr>cur_batch := Some ?t, connected := True\<rparr>, w1)"
    and w1: "pending w1 = b # rest" "heap w1 = heap w" "consumed (trace w1) = consumed (trace w)"
    using connect_dist [OF assms, of ?p rank ws]
    by (simp add: TrainPipelineBase_def consumed_append)
  have n: "\<not> connected ?p" "connect_attr ?p = None" by (simp_all add: TrainPipelineBase_def)
  have "progress ?p w True rank ws =
          pull_and_compute (?p\<lparr>cur_batch := Some ?t, connected := True\<rparr>) w1 True rank ws"
    using n by (simp add: progress_def c)
  moreover have "cur_batch (?p\<lparr>cur_batch := Some ?t, connected := True\<rparr>) = Some ?t" by simp
  ultimately show ?thesis
    using pull_tuple_state [OF _ w1(1), of "?p\<lparr>cur_batch := Some ?t, connected := True\<rparr>"
            a _ _ _ True rank ws] w1(2,3)
    by simp
qed

lemma progress_fresh_nondist_state:
  assumes "pending w = a # b # rest" and "0 < ws" and "- ws \<le> rank" and "rank < ws"
  shows "fst (progress (TrainPipelineBase tr m sdev ddev) w False rank ws) = Inr ()
       \<and> cur_batch (fst (snd (progress (TrainPipelineBase tr m sdev ddev) w False rank ws))) =
            Some (Batch_ref a)
       \<and> pending (snd (snd (progress (TrainPipelineBase tr m sdev ddev) w False rank ws))) = rest
       \<and> consumed (trace (snd (snd (progress (TrainPipelineBase tr m sdev ddev) w False rank ws))))
            = consumed (trace w) @ [a]
       \<and> Forward a (dense_features (placed_batch (heap w a) sdev ddev rank ws))
                    (sparse_features (placed_batch (heap w a) sdev ddev rank ws))
            \<in> set (trace (snd (snd (progress (TrainPipelineBase tr m sdev ddev) w False rank ws))))"
proof -
  let ?p = "TrainPipelineBase tr m sdev ddev :: 'a pipeline"
  let ?p1 = "?p\<lparr>cur_batch := Some (Batch_ref a), connected := True\<rparr>"
  have valid: "0 < ws" "- ws \<le> rank" "rank < ws" by fact+
  obtain w1 where c: "connect ?p w False rank ws = (Inr (), ?p1, w1)"
    and w1: "pending w1 = b # rest" "heap w1 a = placed_batch (heap w a) sdev ddev rank ws"
      "consumed (trace w1) = consumed (trace w)"
    using connect_nondist [OF assms(1) valid, of ?p]
    by (simp add: TrainPipelineBase_def consumed_append)
  have n: "\<not> connected ?p" "connect_attr ?p = None" by (simp_all add: TrainPipelineBase_def)
  have p1: "connected ?p1" "cur_batch ?p1 = Some (Batch_ref a)" by simp_all
  have e: "progress ?p w False rank ws = progress ?p1 w1 False rank ws"
    using n by (simp add: progress_def c)
  obtain w2 where s: "progress ?p1 w1 False rank ws = (Inr (), ?p1, w2)"
    and w2: "pending w2 = rest"
      "trace w2 = trace w1 @ [Next_batch b, live [Some (Batch_ref a), Some (Batch_ref b)],
          live [Some (Batch_ref a), Some (Batch_ref a), Some (Batch_ref b)]]
          @ (if training ?p1 then [Zero_grad] else [])
          @ wait_events (memcpy_stream ?p1) a
          @ [Forward a (dense_features (heap w1 a)) (sparse_features (heap w1 a))]
          @ replicate (metrics ?p1) (Metric_update a (labels (heap w1 a)))
          @ (if training ?p1 then [Criterion a (labels (heap w1 a)), Backward] else [])
          @ [live [Some (Batch_ref b), Some (Batch_ref a), Some (Batch_ref b)],
             Issued (memcpy_stream ?p1) (To Dense (sparse_device ?p1) True),
             Issued (memcpy_stream ?p1) (To Label (sparse_device ?p1) True),
             Issued (memcpy_stream ?p1) (To Sparse (dense_device ?p1) True),
             live [Some (Batch_ref a), Some (Batch_ref a), Some (Batch_ref b)]]
          @ (if training ?p1 then [Optimizer_step] else [])"
    using progress_connected_nondist [OF p1 w1(1) valid] by simp
  have cons: "consumed (trace w2) = consumed (trace w) @ [a]"
    by (simp add: w2(2) w1(3) consumed_append consumed_replicate live_def wait_events_def)
  have fw: "Forward a (dense_features (placed_batch (heap w a) sdev ddev rank ws))
                    (sparse_features (placed_batch (heap w a) sdev ddev rank ws)) \<in> set (trace w2)"
    by (simp add: w2(2) w1(2))
  show ?thesis
    unfolding e s using w2(1) cons fw by simp
qed

text \<open>
  C10. In distributed mode the placement returns the tuple of the three relocated tensors
  and leaves the batch object alone. In non-distributed mode whatever it returns is the
  batch object it was given, and by then it has overwritten the object's three fields:
  dense features and labels moved to the dense target and cut down to the shard of the
  rank, sparse features moved to the sparse target; it does return when rank and world
  size are in range. A fresh engine driven in distributed mode on a source of at least two
  batches holds the tuple after its connect and fails with \<^verbatim>\<open>AttributeError\<close> before any
  forward computation, as does any connected engine whose current batch is a tuple once
  the source yields a batch. In non-distributed mode the same call of progress returns,
  having fed the fields \<^verbatim>\<open>dense_features\<close> and \<^verbatim>\<open>sparse_features\<close> of the placed batch
  object to the forward computation.
\<close>

theorem placement_result_kinds:
  "put_data_in_device h a dd sd True rank ws nb =
      ([To Dense dd False, To Sparse sd False, To Label dd False],
       Inr (Placed_tuple a (tensor_to (dense_features (h a)) dd)
              (tensor_to (sparse_features (h a)) sd) (tensor_to (labels (h a)) dd)),
       h)
   \<and> (fst (snd (put_data_in_device h a dd sd False rank ws nb)) = Inr x \<longrightarrow>
        x = Batch_ref a
        \<and> put_data_in_device h a dd sd False rank ws nb =
             ([To Dense dd nb, To Label dd nb, To Sparse sd nb], Inr (Batch_ref a),
              h(a := placed_batch (h a) dd sd rank ws)))
   \<and> (0 < ws \<and> - ws \<le> rank \<and> rank < ws \<longrightarrow>
        put_data_in_device h a dd sd False rank ws nb =
          ([To Dense dd nb, To Label dd nb, To Sparse sd nb], Inr (Batch_ref a),
           h(a := placed_batch (h a) dd sd rank ws)))
   \<and> dense_features (placed_batch (h a) dd sd rank ws) =
        (tensor_to (dense_features (h a)) dd)
          \<lparr>rows := section_rows (rows (dense_features (h a))) (nat ws) (shard_index ws rank)\<rparr>
   \<and> labels (placed_batch (h a) dd sd rank ws) =
        (tensor_to (labels (h a)) dd)
          \<lparr>rows := section_rows (rows (labels (h a))) (nat ws) (shard_index ws rank)\<rparr>
   \<and> sparse_features (placed_batch (h a) dd sd rank ws) = tensor_to (sparse_features (h a)) sd
   \<and> (pending w = a # b # rest \<longrightarrow>
        fst (progress (TrainPipelineBase tr m sdev ddev) w True rank ws) = Inl AttributeError
        \<and> cur_batch (fst (snd (progress (TrainPipelineBase tr m sdev ddev) w True rank ws))) =
            Some (Placed_tuple a (tensor_to (dense_features (heap w a)) sdev)
                    (tensor_to (sparse_features (heap w a)) ddev)
                    (tensor_to (labels (heap w a)) sdev))
        \<and> heap (snd (snd (progress (TrainPipelineBase tr m sdev ddev) w True rank ws))) = heap w
        \<and> consumed (trace (snd (snd (progress (TrainPipelineBase tr m sdev ddev) w True rank ws))))
            = consumed (trace w)
        \<and> (0 < ws \<and> - ws \<le> rank \<and> rank < ws \<longrightarrow>
             fst (progress (TrainPipelineBase tr m sdev ddev) w False rank ws) = Inr ()
             \<and> cur_batch (fst (snd (progress (TrainPipelineBase tr m sdev ddev) w False rank ws)))
                  = Some (Batch_ref a)
             \<and> consumed (trace (snd (snd
                    (progress (TrainPipelineBase tr m sdev ddev) w False rank ws))))
                  = consumed (trace w) @ [a]
             \<and> Forward a (dense_features (placed_batch (heap w a) sdev ddev rank ws))
                    (sparse_features (placed_batch (heap w a) sdev ddev rank ws))
                  \<in> set (trace (snd (snd
                       (progress (TrainPipelineBase tr m sdev ddev) w False rank ws))))))
   \<and> (connected p \<and> cur_batch p = Some (Placed_tuple c d s l) \<and> pending w = a # rest' \<longrightarrow>
        fst (progress p w ud rank ws) = Inl AttributeError
        \<and> fst (snd (progress p w ud rank ws)) = p
        \<and> consumed (trace (snd (snd (progress p w ud rank ws)))) = consumed (trace w))"
proof -
  have 1: "put_data_in_device h a dd sd True rank ws nb =
      ([To Dense dd False, To Sparse sd False, To Label dd False],
       Inr (Placed_tuple a (tensor_to (dense_features (h a)) dd)
              (tensor_to (sparse_features (h a)) sd) (tensor_to (labels (h a)) dd)),
       h)"
    by (rule put_dist)
  have 2: "fst (snd (put_data_in_device h a dd sd False rank ws nb)) = Inr x \<longrightarrow>
        x = Batch_ref a
        \<and> put_data_in_device h a dd sd False rank ws nb =
             ([To Dense dd nb, To Label dd nb, To Sparse sd nb], Inr (Batch_ref a),
              h(a := placed_batch (h a) dd sd rank ws))"
    using put_nondist_returned [of h a dd sd rank ws nb x] by blast
  have 3: "0 < ws \<and> - ws \<le> rank \<and> rank < ws \<longrightarrow>
        put_data_in_device h a dd sd False rank ws nb =
          ([To Dense dd nb, To Label dd nb, To Sparse sd nb], Inr (Batch_ref a),
           h(a := placed_batch (h a) dd sd rank ws))"
    using put_nondist [of ws rank h a dd sd nb] by blast
  have 4: "dense_features (placed_batch (h a) dd sd rank ws) =
        (tensor_to (dense_features (h a)) dd)
          \<lparr>rows := section_rows (rows (dense_features (h a))) (nat ws) (shard_index ws rank)\<rparr>"
    "labels (placed_batch (h a) dd sd rank ws) =
        (tensor_to (labels (h a)) dd)
          \<lparr>rows := section_rows (rows (labels (h a))) (nat ws) (shard_index ws rank)\<rparr>"
    "sparse_features (placed_batch (h a) dd sd rank ws) = tensor_to (sparse_features (h a)) sd"
    by (simp_all add: placed_batch_def)
  note 5 = progress_fresh_dist_state [of w a b rest tr m sdev ddev rank ws]
  note 6 = progress_fresh_nondist_state [of w a b rest ws rank tr m sdev ddev]
  note 7 = progress_tuple_fails [of p c d s l w a rest' ud rank ws]
  show ?thesis
    using 1 2 3 4 5 6 7 by blast
qed

theorem placement_result_kinds_witness:
  "put_data_in_device example_heap 0 (Some (Cuda 0)) (Some Cpu) True 0 2 True =
      ([To Dense (Some (Cuda 0)) False, To Sparse (Some Cpu) False, To Label (Some (Cuda 0)) False],
       Inr (Placed_tuple 0 \<lparr>device_of = Cuda 0, rows = [0, 1, 2, 3]\<rparr>
             \<lparr>device_of = Cpu, rows = [0]\<rparr> \<lparr>device_of = Cuda 0, rows = [0, 1, 0, 1]\<rparr>),
       example_heap)
   \<and> put_data_in_device example_heap 0 (Some (Cuda 0)) (Some Cpu) False 0 2 True =
      ([To Dense (Some (Cuda 0)) True, To Label (Some (Cuda 0)) True, To Sparse (Some Cpu) True],
       Inr (Batch_ref 0),
       example_heap(0 := placed_batch (example_heap 0) (Some (Cuda 0)) (Some Cpu) 0 2))
   \<and> dense_features (placed_batch (example_heap 0) (Some (Cuda 0)) (Some Cpu) 0 2)
        = \<lparr>device_of = Cuda 0, rows = [0, 1]\<rparr>
   \<and> labels (placed_batch (example_heap 0) (Some (Cuda 0)) (Some Cpu) 0 2)
        = \<lparr>device_of = Cuda 0, rows = [0, 1]\<rparr>
   \<and> sparse_features (placed_batch (example_heap 0) (Some (Cuda 0)) (Some Cpu) 0 2)
        = \<lparr>device_of = Cpu, rows = [0]\<rparr>
   \<and> fst (progress (TrainPipelineBase True 0 (Some Cpu) (Some (Cuda 0))) (example_world [0, 1, 2])
            True 0 2) = Inl AttributeError
   \<and> consumed (trace (snd (snd (progress (TrainPipelineBase True 0 (Some Cpu) (Some (Cuda 0)))
            (example_world [0, 1, 2]) True 0 2)))) = []
   \<and> fst (progress (TrainPipelineBase True 0 (Some Cpu) (Some (Cuda 0))) (example_world [0, 1, 2])
            False 0 2) = Inr ()
   \<and> consumed (trace (snd (snd (progress (TrainPipelineBase True 0 (Some Cpu) (Some (Cuda 0)))
            (example_world [0, 1, 2]) False 0 2)))) = [0]
   \<and> fst (progress (example_engine\<lparr>cur_batch := Some (Placed_tuple 0
              \<lparr>device_of = Cuda 0, rows = [0, 1, 2, 3]\<rparr> \<lparr>device_of = Cpu, rows = [0]\<rparr>
              \<lparr>device_of = Cuda 0, rows = [0, 1, 0, 1]\<rparr>)\<rparr>) (example_world [0, 1, 2])
            True 0 2) = Inl AttributeError"
proof -
  let ?t = "Placed_tuple 0 \<lparr>device_of = Cuda 0, rows = [0, 1, 2, 3]\<rparr>
              \<lparr>device_of = Cpu, rows = [0]\<rparr> \<lparr>device_of = Cuda 0, rows = [0, 1, 0, 1::nat]\<rparr>"
  have p: "pending (example_world [0, 1, 2]) = 0 # 1 # [2]"
       "pending (example_world [0, 1, 2]) = 0 # [1, 2]"
    by (simp_all add: example_world_simps)
  have v: "(0::int) < 2 \<and> - 2 \<le> (0::int) \<and> (0::int) < 2" by simp
  have c: "connected (example_engine\<lparr>cur_batch := Some ?t\<rparr>)
           \<and> cur_batch (example_engine\<lparr>cur_batch := Some ?t\<rparr>) = Some ?t"
    by (simp add: example_engine_simps)
  have e: "tensor_to (dense_features (example_heap 0)) (Some (Cuda 0))
             = \<lparr>device_of = Cuda 0, rows = [0, 1, 2, 3]\<rparr>"
     "tensor_to (sparse_features (example_heap 0)) (Some Cpu) = \<lparr>device_of = Cpu, rows = [0]\<rparr>"
     "tensor_to (labels (example_heap 0)) (Some (Cuda 0))
             = \<lparr>device_of = Cuda 0, rows = [0, 1, 0, 1]\<rparr>"
    by (simp_all add: example_heap_def tensor_to_def)
  have r: "\<lparr>device_of = Cuda 0, rows = [0, 1, 2, 3::nat]\<rparr>
             \<lparr>rows := section_rows (rows (dense_features (example_heap 0))) (nat 2) (shard_index 2 0)\<rparr>
           = \<lparr>device_of = Cuda 0, rows = [0, 1]\<rparr>"
     "\<lparr>device_of = Cuda 0, rows = [0, 1, 0, 1::nat]\<rparr>
             \<lparr>rows := section_rows (rows (labels (example_heap 0))) (nat 2) (shard_index 2 0)\<rparr>
           = \<lparr>device_of = Cuda 0, rows = [0, 1]\<rparr>"
    by (simp_all add: example_heap_def section_rows_def shard_index_def Let_def)
  have t: "consumed (trace (example_world [0, 1, 2])) = []"
    by (simp add: example_world_simps)
  note th = placement_result_kinds [of example_heap 0 "Some (Cuda 0)" "Some Cpu" 0 2 True
          "Batch_ref 0" "example_world [0, 1, 2]" 1 "[2]" True 0 "Some Cpu" "Some (Cuda 0)"
          "example_engine\<lparr>cur_batch := Some ?t\<rparr>" 0 "\<lparr>device_of = Cuda 0, rows = [0, 1, 2, 3]\<rparr>"
          "\<lparr>device_of = Cpu, rows = [0]\<rparr>" "\<lparr>device_of = Cuda 0, rows = [0, 1, 0, 1]\<rparr>"
          "[1, 2]" True, unfolded e r t append_Nil]
  note a1 = th [THEN conjunct1]
  note r1 = th [THEN conjunct2]
  note a3 = r1 [THEN conjunct2, THEN conjunct1, THEN mp, OF v]
  note r3 = r1 [THEN conjunct2, THEN conjunct2]
  note a4 = r3 [THEN conjunct1]
  note a5 = r3 [THEN conjunct2, THEN conjunct1]
  note a6 = r3 [THEN conjunct2, THEN conjunct2, THEN conjunct1]
  note r6 = r3 [THEN conjunct2, THEN conjunct2, THEN conjunct2]
  note a7 = r6 [THEN conjunct1, THEN mp, OF p(1)]
  note d1 = a7 [THEN conjunct1]
  note r7 = a7 [THEN conjunct2, THEN conjunct2, THEN conjunct2]
  note d4 = r7 [THEN conjunct1]
  note n = r7 [THEN conjunct2, THEN mp, OF v]
  note n1 = n [THEN conjunct1]
  note n3 = n [THEN conjunct2, THEN conjunct2, THEN conjunct1]
  have cp: "connected (example_engine\<lparr>cur_batch := Some ?t\<rparr>)
           \<and> cur_batch (example_engine\<lparr>cur_batch := Some ?t\<rparr>) = Some ?t
           \<and> pending (example_world [0, 1, 2]) = 0 # [1, 2]"
    using c p(2) by (intro conjI) (erule conjunct1, erule conjunct2, assumption)
  note t1 = r6 [THEN conjunct2, THEN mp, OF cp, THEN conjunct1]
  show ?thesis
    by (intro conjI) (rule a1 a3 a4 a5 a6 d1 d4 n1 n3 t1)+
qed

section \<open>Properties of the all-to-all exchange\<close>

lemma length_split_chunks [simp]: "length (split_chunks d n t) = n"
  by (induction d n t rule: split_chunks.induct) simp_all

lemma has_shape_Cons_iff:
  "has_shape (n # sh) t \<longleftrightarrow> (\<exists>ts. t = Array ts \<and> length ts = n \<and> (\<forall>u\<in>set ts. has_shape sh u))"
  by (cases t) auto

lemma concat_blocks_take:
  "concat (map (\<lambda>j. take m (drop (j * m) ts)) [0..<k]) = take (k * m) ts"
proof (induction k)
  case 0
  show ?case by simp
next
  case (Suc k)
  have "take (k * m + m) ts = take (k * m) ts @ take m (drop (k * m) ts)"
    by (rule take_add)
  with Suc show ?case by (simp add: add.commute)
qed

lemma block_of_concat:
  "\<forall>l\<in>set L. length l = m \<Longrightarrow> j < length L \<Longrightarrow> take m (drop (j * m) (concat L)) = L ! j"
proof (induction L arbitrary: j)
  case Nil
  then show ?case by simp
next
  case (Cons l L)
  show ?case
  proof (cases j)
    case 0
    with Cons.prems show ?thesis by simp
  next
    case (Suc i)
    with Cons.prems have "take m (drop (i * m) (concat L)) = L ! i"
      by (intro Cons.IH) auto
    with Cons.prems Suc show ?thesis by simp
  qed
qed

lemma length_concat_blocks:
  "\<forall>l\<in>set L. length l = m \<Longrightarrow> length (concat L) = length L * m"
  by (induction L) simp_all

lemma has_shape_split_chunks:
  "has_shape sh t \<Longrightarrow> d < length sh \<Longrightarrow> j < n \<Longrightarrow>
     has_shape (sh[d := sh ! d div n]) (split_chunks d n t ! j)"
proof (induction d arbitrary: sh t)
  case 0
  then obtain n0 sh' where sh: "sh = n0 # sh'" by (cases sh) auto
  with 0 obtain ts where t: "t = Array ts" "length ts = n0" "\<forall>u\<in>set ts. has_shape sh' u"
    by (auto simp: has_shape_Cons_iff)
  let ?m = "n0 div n"
  have "(j + 1) * ?m \<le> n * ?m" using \<open>j < n\<close> by (intro mult_le_mono1) simp
  also have "\<dots> \<le> n0" by simp
  finally have "j * ?m + ?m \<le> n0" by (simp add: algebra_simps)
  then have len: "length (take ?m (drop (j * ?m) ts)) = ?m"
    using t(2) by simp
  have "\<forall>u\<in>set (take ?m (drop (j * ?m) ts)). has_shape sh' u"
    using t(3) by (meson in_set_dropD in_set_takeD)
  with len show ?case using \<open>j < n\<close> by (simp add: sh t)
next
  case (Suc d)
  then obtain n0 sh' where sh: "sh = n0 # sh'" by (cases sh) auto
  with Suc.prems obtain ts where t: "t = Array ts" "length ts = n0" "\<forall>u\<in>set ts. has_shape sh' u"
    by (auto simp: has_shape_Cons_iff)
  have "\<forall>u\<in>set ts. has_shape (sh'[d := sh' ! d div n]) (split_chunks d n u ! j)"
    using Suc.IH t(3) Suc.prems(2,3) by (simp add: sh)
  then show ?case using \<open>j < n\<close> t(2) by (simp add: sh t)
qed

lemma transpose_children:
  assumes "cs \<noteq> []" and "\<forall>c\<in>set cs. has_shape (n0 # sh') c"
  shows "transpose (map children cs) =
           map (\<lambda>i. map (\<lambda>c. children c ! i) cs) [0..<n0]"
proof -
  have len: "\<And>i. i < length (map children cs) \<Longrightarrow> length (map children cs ! i) = n0"
    using assms(2) by (auto simp: has_shape_Cons_iff dest!: nth_mem)
  have "transpose (map children cs) =
          map (\<lambda>i. map (\<lambda>j. map children cs ! j ! i) [0..<length (map children cs)]) [0..<n0]"
    by (rule transpose_rectangle) (use assms(1) len in auto)
  also have "\<dots> = map (\<lambda>i. map (\<lambda>c. children c ! i) cs) [0..<n0]"
    by (auto intro!: nth_equalityI)
  finally show ?thesis .
qed

lemma cat_Suc_rect:
  assumes "cs \<noteq> []" and "\<forall>c\<in>set cs. has_shape (n0 # sh') c"
  shows "cat (Suc d) cs = Array (map (\<lambda>i. cat d (map (\<lambda>c. children c ! i) cs)) [0..<n0])"
  by (simp add: transpose_children [OF assms] comp_def)

lemma has_shape_cat:
  "cs \<noteq> [] \<Longrightarrow> \<forall>c\<in>set cs. has_shape sh c \<Longrightarrow> d < length sh \<Longrightarrow>
     has_shape (sh[d := sh ! d * length cs]) (cat d cs)"
proof (induction d arbitrary: sh cs)
  case 0
  then obtain n0 sh' where sh: "sh = n0 # sh'" by (cases sh) auto
  have l: "\<forall>l\<in>set (map children cs). length l = n0"
    using 0(2) by (auto simp: sh has_shape_Cons_iff)
  have e: "\<forall>u\<in>set (concat (map children cs)). has_shape sh' u"
    using 0(2) by (auto simp: sh has_shape_Cons_iff)
  show ?case
    using length_concat_blocks [OF l] e by (simp add: sh mult.commute)
next
  case (Suc d)
  then obtain n0 sh' where sh: "sh = n0 # sh'" by (cases sh) auto
  have c: "cat (Suc d) cs = Array (map (\<lambda>i. cat d (map (\<lambda>c. children c ! i) cs)) [0..<n0])"
    using Suc.prems(1,2) by (intro cat_Suc_rect) (auto simp: sh)
  have "has_shape (sh'[d := sh' ! d * length cs]) (cat d (map (\<lambda>c. children c ! i) cs))"
    if "i < n0" for i
  proof -
    have "\<forall>u\<in>set (map (\<lambda>c. children c ! i) cs). has_shape sh' u"
      using Suc.prems(2) that by (auto simp: sh has_shape_Cons_iff)
    from Suc.IH [OF _ this] Suc.prems(1,3) show ?thesis by (simp add: sh)
  qed
  then show ?case unfolding c by (simp add: sh)
qed

lemma cat_split_chunks:
  "has_shape sh t \<Longrightarrow> d < length sh \<Longrightarrow> n dvd sh ! d \<Longrightarrow> 0 < n \<Longrightarrow>
     cat d (split_chunks d n t) = t"
proof (induction d arbitrary: sh t)
  case 0
  then obtain n0 sh' where sh: "sh = n0 # sh'" by (cases sh) auto
  with 0 obtain ts where t: "t = Array ts" "length ts = n0"
    by (auto simp: has_shape_Cons_iff)
  have "n * (n0 div n) = n0" using 0(3) by (simp add: sh)
  then have "take (n * (length ts div n)) ts = ts" by (simp add: t(2))
  then show ?case
    by (simp add: t(1) comp_def concat_blocks_take)
next
  case (Suc d)
  then obtain n0 sh' where sh: "sh = n0 # sh'" by (cases sh) auto
  with Suc.prems obtain ts where t: "t = Array ts" "length ts = n0" "\<forall>u\<in>set ts. has_shape sh' u"
    by (auto simp: has_shape_Cons_iff)
  let ?cs = "split_chunks (Suc d) n t"
  have ne: "?cs \<noteq> []" using \<open>0 < n\<close> by (metis length_split_chunks length_0_conv less_numeral_extra(3))
  have shp: "\<forall>c\<in>set ?cs. has_shape (n0 # sh'[d := sh' ! d div n]) c"
  proof
    fix c assume "c \<in> set ?cs"
    then obtain j where "j < n" "c = ?cs ! j"
      by (metis in_set_conv_nth length_split_chunks)
    with has_shape_split_chunks [OF Suc.prems(1,2), of j n] show "has_shape (n0 # sh'[d := sh' ! d div n]) c"
      by (simp add: sh)
  qed
  have col: "map (\<lambda>c. children c ! i) ?cs = split_chunks d n (ts ! i)" if "i < n0" for i
    using that t(2) by (auto simp: t(1) intro!: nth_equalityI)
  have "cat (Suc d) ?cs = Array (map (\<lambda>i. cat d (map (\<lambda>c. children c ! i) ?cs)) [0..<n0])"
    by (rule cat_Suc_rect [OF ne shp])
  also have "\<dots> = Array (map (\<lambda>i. cat d (split_chunks d n (ts ! i))) [0..<n0])"
    using col by simp
  also have "\<dots> = Array (map (\<lambda>i. ts ! i) [0..<n0])"
  proof -
    have "cat d (split_chunks d n (ts ! i)) = ts ! i" if "i < n0" for i
      using Suc.IH [of sh' "ts ! i"] t(2,3) that Suc.prems(2,3,4) by (simp add: sh)
    then show ?thesis by simp
  qed
  also have "\<dots> = t" by (simp add: t(1) t(2) [symmetric] map_nth)
  finally show ?case .
qed

lemma split_chunks_cat:
  "cs \<noteq> [] \<Longrightarrow> \<forall>c\<in>set cs. has_shape sh c \<Longrightarrow> d < length sh \<Longrightarrow>
     split_chunks d (length cs) (cat d cs) = cs"
proof (induction d arbitrary: sh cs)
  case 0
  then obtain n0 sh' where sh: "sh = n0 # sh'" by (cases sh) auto
  let ?L = "map children cs"
  have l: "\<forall>l\<in>set ?L. length l = n0"
    using 0(2) by (auto simp: sh has_shape_Cons_iff)
  have len: "length (concat ?L) = length cs * n0"
    using length_concat_blocks [OF l] by simp
  have pos: "0 < length cs" using 0(1) by simp
  have m: "length (concat ?L) div length cs = n0"
    using pos by (simp add: len)
  have arr: "Array (children c) = c" if "c \<in> set cs" for c
    using 0(2) that by (auto simp: sh has_shape_Cons_iff)
  show ?case
  proof (rule nth_equalityI)
    show "length (split_chunks 0 (length cs) (cat 0 cs)) = length cs" by simp
  next
    fix j assume "j < length (split_chunks 0 (length cs) (cat 0 cs))"
    then have j: "j < length cs" by simp
    then have "take n0 (drop (j * n0) (concat ?L)) = ?L ! j"
      by (intro block_of_concat [OF l]) simp
    then show "split_chunks 0 (length cs) (cat 0 cs) ! j = cs ! j"
      using j arr by (simp add: m)
  qed
next
  case (Suc d)
  then obtain n0 sh' where sh: "sh = n0 # sh'" by (cases sh) auto
  let ?W = "length cs"
  have shp: "\<forall>c\<in>set cs. has_shape (n0 # sh') c" using Suc.prems(2) by (simp add: sh)
  have c: "cat (Suc d) cs = Array (map (\<lambda>i. cat d (map (\<lambda>c. children c ! i) cs)) [0..<n0])"
    by (rule cat_Suc_rect [OF Suc.prems(1) shp])
  have ih: "split_chunks d ?W (cat d (map (\<lambda>c. children c ! i) cs)) = map (\<lambda>c. children c ! i) cs"
    if "i < n0" for i
  proof -
    have "\<forall>u\<in>set (map (\<lambda>c. children c ! i) cs). has_shape sh' u"
      using shp that by (auto simp: has_shape_Cons_iff)
    from Suc.IH [OF _ this] Suc.prems(1,3) show ?thesis by (simp add: sh)
  qed
  show ?case
  proof (rule nth_equalityI)
    show "length (split_chunks (Suc d) ?W (cat (Suc d) cs)) = ?W" by simp
  next
    fix j assume "j < length (split_chunks (Suc d) ?W (cat (Suc d) cs))"
    then have j: "j < ?W" by simp
    from shp j obtain ts where ts: "cs ! j = Array ts" "length ts = n0"
      by (metis has_shape_Cons_iff nth_mem)
    have "split_chunks (Suc d) ?W (cat (Suc d) cs) ! j
            = Array (map (\<lambda>i. split_chunks d ?W (cat d (map (\<lambda>c. children c ! i) cs)) ! j) [0..<n0])"
      unfolding c using j by (simp add: comp_def)
    also have "\<dots> = Array (map (\<lambda>i. map (\<lambda>c. children c ! i) cs ! j) [0..<n0])"
      using ih by simp
    also have "\<dots> = Array (map (\<lambda>i. ts ! i) [0..<n0])"
      using j by (simp add: ts(1))
    also have "\<dots> = cs ! j" by (simp add: ts(1) ts(2) [symmetric] map_nth)
    finally show "split_chunks (Suc d) ?W (cat (Suc d) cs) ! j = cs ! j" .
  qed
qed

lemma uniformD:
  "uniform sh xs \<Longrightarrow> r < length xs \<Longrightarrow> dims (xs ! r) = sh \<and> has_shape sh (body (xs ! r))"
  by (auto simp: uniform_def well_formed_def dest!: nth_mem)

lemma all_to_all_ok:
  assumes "xs \<noteq> []" and "uniform sh xs" and "s < length sh" and "g < length sh"
    and "length xs dvd sh ! s"
  shows "all_to_all s g xs =
     Inr (map (\<lambda>r. \<lparr>dims = out_dims (length xs) s g sh,
                      body = cat g (received_chunks s xs r)\<rparr>) [0..<length xs])"
proof -
  have d: "\<forall>x\<in>set xs. dims x = sh" using assms(2) by (simp add: uniform_def)
  have h: "dims (hd xs) = sh" using d assms(1) by simp
  have "\<And>r. r < length xs \<Longrightarrow> dims (xs ! r) = sh" using d by simp
  then show ?thesis
    using d h assms(3,4,5) by (simp add: all_to_all_def Let_def dvd_eq_mod_eq_0)
qed

lemma all_to_all_indivisible:
  assumes "xs \<noteq> []" and "uniform sh xs" and "\<not> length xs dvd sh ! s"
  shows "all_to_all s g xs = Inl ShapeError"
proof -
  have d: "\<forall>x\<in>set xs. dims x = sh" using assms(2) by (simp add: uniform_def)
  have "hd xs \<in> set xs" using assms(1) by simp
  with d assms(3) have "\<exists>x\<in>set xs. dims x ! s mod length xs \<noteq> 0"
    by (auto simp: dvd_eq_mod_eq_0)
  then show ?thesis unfolding all_to_all_def Let_def by (simp only: if_True if_cancel)
qed

lemma received_chunks_shape:
  assumes "uniform sh xs" and "s < length sh" and "r < length xs"
  shows "\<forall>c\<in>set (received_chunks s xs r). has_shape (sh[s := sh ! s div length xs]) c"
  using assms
  by (auto simp: received_chunks_def uniform_def well_formed_def intro!: has_shape_split_chunks)

lemma length_received_chunks [simp]: "length (received_chunks s xs r) = length xs"
  by (simp add: received_chunks_def)

lemma uniform_outputs:
  assumes "xs \<noteq> []" and "uniform sh xs" and "s < length sh" and "g < length sh"
  shows "uniform (out_dims (length xs) s g sh)
           (map (\<lambda>r. \<lparr>dims = out_dims (length xs) s g sh,
                      body = cat g (received_chunks s xs r)\<rparr>) [0..<length xs])"
proof -
  have "has_shape (out_dims (length xs) s g sh) (cat g (received_chunks s xs r))"
    if "r < length xs" for r
  proof -
    let ?sh1 = "sh[s := sh ! s div length xs]"
    have ne: "received_chunks s xs r \<noteq> []" using assms(1) by (simp add: received_chunks_def)
    from has_shape_cat [OF ne received_chunks_shape [OF assms(2,3) that], of g] assms(4)
    show ?thesis by (simp add: out_dims_def Let_def)
  qed
  then show ?thesis by (simp add: uniform_def well_formed_def)
qed

lemma out_dims_back:
  assumes "0 < n" and "n dvd sh ! s" and "s < length sh" and "g < length sh"
  shows "out_dims n g s (out_dims n s g sh) = sh"
  using assms
  by (cases "s = g") (simp_all add: out_dims_def Let_def list_update_swap [of s g])

lemma out_dims_nth:
  assumes "s < length sh" and "g < length sh"
  shows "length (out_dims n s g sh) = length sh"
    and "s \<noteq> g \<Longrightarrow> out_dims n s g sh ! s = sh ! s div n"
    and "s \<noteq> g \<Longrightarrow> out_dims n s g sh ! g = sh ! g * n"
    and "out_dims n s g sh ! g = (if s = g then sh ! s div n * n else sh ! g * n)"
    and "i \<noteq> s \<Longrightarrow> i \<noteq> g \<Longrightarrow> out_dims n s g sh ! i = sh ! i"
  using assms by (simp_all add: out_dims_def Let_def)

lemma all_to_all_back:
  assumes "xs \<noteq> []" and "uniform sh xs" and "s < length sh" and "g < length sh"
    and "length xs dvd sh ! s"
  shows "all_to_all g s
           (map (\<lambda>r. \<lparr>dims = out_dims (length xs) s g sh,
                      body = cat g (received_chunks s xs r)\<rparr>) [0..<length xs]) = Inr xs"
proof -
  let ?W = "length xs"
  let ?sh1 = "sh[s := sh ! s div ?W]"
  let ?sh' = "out_dims ?W s g sh"
  let ?ys = "map (\<lambda>r. \<lparr>dims = ?sh', body = cat g (received_chunks s xs r)\<rparr>) [0..<?W]"
  have W: "0 < ?W" using assms(1) by simp
  have ne: "?ys \<noteq> []" using assms(1) by simp
  have len: "length ?ys = ?W" by simp
  have u: "uniform ?sh' ?ys" by (rule uniform_outputs [OF assms(1-4)])
  have l': "length ?sh' = length sh" by (simp add: out_dims_def Let_def)
  have dv: "?W dvd ?sh' ! g"
    using assms(3,4) by (simp add: out_dims_def Let_def)
  have "all_to_all g s ?ys =
     Inr (map (\<lambda>r. \<lparr>dims = out_dims (length ?ys) g s ?sh',
                      body = cat s (received_chunks g ?ys r)\<rparr>) [0..<length ?ys])"
    by (rule all_to_all_ok [OF ne u]) (use assms(3,4) l' dv in simp_all)
  also have "\<dots> = Inr (map (\<lambda>r. \<lparr>dims = sh, body = cat s (received_chunks g ?ys r)\<rparr>) [0..<?W])"
    using out_dims_back [OF W assms(5,3,4)] by simp
  also have "\<dots> = Inr xs"
  proof -
    have "\<lparr>dims = sh, body = cat s (received_chunks g ?ys r)\<rparr> = xs ! r" if r: "r < ?W" for r
    proof -
      have "received_chunks g ?ys r = split_chunks s ?W (body (xs ! r))"
      proof (rule nth_equalityI)
        show "length (received_chunks g ?ys r) = length (split_chunks s ?W (body (xs ! r)))"
          by simp
      next
        fix j assume "j < length (received_chunks g ?ys r)"
        then have j: "j < ?W" by simp
        have nej: "received_chunks s xs j \<noteq> []" using assms(1) by (simp add: received_chunks_def)
        have "split_chunks g ?W (cat g (received_chunks s xs j)) = received_chunks s xs j"
          using split_chunks_cat [OF nej received_chunks_shape [OF assms(2,3) j], of g] assms(4)
          by simp
        then show "received_chunks g ?ys r ! j = split_chunks s ?W (body (xs ! r)) ! j"
          using j r by (simp add: received_chunks_def)
      qed
      moreover have "cat s (split_chunks s ?W (body (xs ! r))) = body (xs ! r)"
        using uniformD [OF assms(2) r] assms(3,5) W by (intro cat_split_chunks) auto
      moreover have "dims (xs ! r) = sh" using uniformD [OF assms(2) r] by simp
      ultimately show ?thesis by simp
    qed
    then have "map (\<lambda>r. \<lparr>dims = sh, body = cat s (received_chunks g ?ys r)\<rparr>) [0..<?W]
                 = map (\<lambda>r. xs ! r) [0..<?W]"
      by simp
    then show ?thesis by (simp add: map_nth)
  qed
  finally show ?thesis .
qed

lemma dots_sum:
  "length xs = length ys \<Longrightarrow> dots xs ys = (\<Sum>i<length xs. dot (xs ! i) (ys ! i))"
proof (induction xs arbitrary: ys)
  case Nil
  then show ?case by simp
next
  case (Cons x xs)
  then obtain y ys' where ys: "ys = y # ys'" "length xs = length ys'"
    by (cases ys) auto
  show ?case
    using Cons.IH [OF ys(2)] by (simp add: ys sum.lessThan_Suc_shift del: sum.lessThan_Suc)
qed

lemma dots_append:
  "length a = length b \<Longrightarrow> dots (a @ a') (b @ b') = dots a b + dots a' b'"
proof (induction a arbitrary: b)
  case Nil
  then show ?case by simp
next
  case (Cons x a)
  then obtain y b0 where "b = y # b0" "length a = length b0" by (cases b) auto
  with Cons.IH show ?case by (simp add: add.assoc)
qed

lemma dots_concat:
  "length A = length B \<Longrightarrow> \<forall>k<length A. length (A ! k) = length (B ! k) \<Longrightarrow>
     dots (concat A) (concat B) = (\<Sum>k<length A. dots (A ! k) (B ! k))"
proof (induction A arbitrary: B)
  case Nil
  then show ?case by simp
next
  case (Cons a A)
  then obtain b B0 where B: "B = b # B0" "length A = length B0" by (cases B) auto
  have l0: "length a = length b" using Cons.prems(2) B by auto
  have "\<forall>k<length A. length (A ! k) = length (B0 ! k)"
    using Cons.prems(2) B by auto
  from Cons.IH [OF B(2) this] show ?case
    by (simp add: B dots_append [OF l0] sum.lessThan_Suc_shift del: sum.lessThan_Suc)
qed

lemma has_shape_nth_Array:
  assumes "\<forall>c\<in>set cs. has_shape (n0 # sh') c" and "k < length cs"
  shows "cs ! k = Array (children (cs ! k))" and "length (children (cs ! k)) = n0"
    and "\<forall>u\<in>set (children (cs ! k)). has_shape sh' u"
proof -
  have "has_shape (n0 # sh') (cs ! k)" using assms by simp
  then obtain ts where "cs ! k = Array ts" "length ts = n0" "\<forall>u\<in>set ts. has_shape sh' u"
    unfolding has_shape_Cons_iff by blast
  then show "cs ! k = Array (children (cs ! k))" "length (children (cs ! k)) = n0"
    "\<forall>u\<in>set (children (cs ! k)). has_shape sh' u"
    by simp_all
qed

lemma dot_Array_children:
  assumes "\<forall>c\<in>set cs. has_shape (n0 # sh') c" and "\<forall>c\<in>set ds. has_shape (n0 # sh') c"
    and "k < length cs" and "length ds = length cs"
  shows "dot (cs ! k) (ds ! k) = dots (children (cs ! k)) (children (ds ! k))"
proof -
  have "dot (Array (children (cs ! k))) (Array (children (ds ! k)))
          = dots (children (cs ! k)) (children (ds ! k))"
    by simp
  then show ?thesis
    using has_shape_nth_Array(1) [OF assms(1,3)] has_shape_nth_Array(1) [OF assms(2), of k] assms(3,4)
    by simp
qed

lemma dot_cat_0:
  assumes "length ds = length cs" and "\<forall>c\<in>set cs. has_shape (n0 # sh') c"
    and "\<forall>c\<in>set ds. has_shape (n0 # sh') c"
  shows "dot (cat 0 cs) (cat 0 ds) = (\<Sum>k<length cs. dot (cs ! k) (ds ! k))"
proof -
  have lens: "\<forall>k<length (map children cs). length (map children cs ! k) = length (map children ds ! k)"
    using has_shape_nth_Array(2) [OF assms(2)] has_shape_nth_Array(2) [OF assms(3)] assms(1)
    by simp
  have "dot (cat 0 cs) (cat 0 ds) = dots (concat (map children cs)) (concat (map children ds))"
    by simp
  also have "\<dots> = (\<Sum>k<length (map children cs). dots (map children cs ! k) (map children ds ! k))"
    by (rule dots_concat [OF _ lens]) (simp add: assms(1))
  also have "\<dots> = (\<Sum>k<length cs. dots (children (cs ! k)) (children (ds ! k)))"
    using assms(1) by simp
  also have "\<dots> = (\<Sum>k<length cs. dot (cs ! k) (ds ! k))"
    by (rule sum.cong) (simp_all add: dot_Array_children [OF assms(2,3) _ assms(1)])
  finally show ?thesis .
qed

lemma dot_row_sum:
  assumes "\<forall>c\<in>set cs. has_shape (n0 # sh') c" and "\<forall>c\<in>set ds. has_shape (n0 # sh') c"
    and "k < length cs" and "length ds = length cs"
  shows "dot (cs ! k) (ds ! k) = (\<Sum>i<n0. dot (children (cs ! k) ! i) (children (ds ! k) ! i))"
proof -
  have l: "length (children (cs ! k)) = length (children (ds ! k))"
    "length (children (cs ! k)) = n0"
    using has_shape_nth_Array(2) [OF assms(1,3)] has_shape_nth_Array(2) [OF assms(2), of k] assms(3,4)
    by simp_all
  show ?thesis
    unfolding dot_Array_children [OF assms] dots_sum [OF l(1)] l(2) ..
qed

lemma dot_cat:
  "cs \<noteq> [] \<Longrightarrow> length ds = length cs \<Longrightarrow> \<forall>c\<in>set cs. has_shape sh c \<Longrightarrow>
   \<forall>c\<in>set ds. has_shape sh c \<Longrightarrow> d < length sh \<Longrightarrow>
     dot (cat d cs) (cat d ds) = (\<Sum>k<length cs. dot (cs ! k) (ds ! k))"
proof (induction d arbitrary: sh cs ds)
  case 0
  then obtain n0 sh' where sh: "sh = n0 # sh'" by (cases sh) auto
  show ?case
    by (rule dot_cat_0 [OF 0(2), of n0 sh']) (use 0(3,4) sh in simp_all)
next
  case (Suc d)
  then obtain n0 sh' where sh: "sh = n0 # sh'" by (cases sh) auto
  have ne: "ds \<noteq> []" using Suc.prems(1,2) by auto
  have sc: "\<forall>c\<in>set cs. has_shape (n0 # sh') c" and sd: "\<forall>c\<in>set ds. has_shape (n0 # sh') c"
    using Suc.prems(3,4) by (simp_all add: sh)
  have dl: "d < length sh'" using Suc.prems(5) by (simp add: sh)
  let ?col = "\<lambda>i xs. map (\<lambda>c. children c ! i) xs"
  have c: "cat (Suc d) cs = Array (map (\<lambda>i. cat d (?col i cs)) [0..<n0])"
    by (rule cat_Suc_rect [OF Suc.prems(1) sc])
  have e: "cat (Suc d) ds = Array (map (\<lambda>i. cat d (?col i ds)) [0..<n0])"
    by (rule cat_Suc_rect [OF ne sd])
  have ih: "dot (cat d (?col i cs)) (cat d (?col i ds))
       = (\<Sum>k<length cs. dot (children (cs ! k) ! i) (children (ds ! k) ! i))" if "i < n0" for i
  proof -
    have 1: "\<forall>u\<in>set (?col i cs). has_shape sh' u"
    proof
      fix u assume "u \<in> set (?col i cs)"
      then obtain k where k: "k < length cs" "u = children (cs ! k) ! i"
        by (auto simp: in_set_conv_nth)
      show "has_shape sh' u"
        using has_shape_nth_Array(2,3) [OF sc k(1)] that k(2) by simp
    qed
    have 2: "\<forall>u\<in>set (?col i ds). has_shape sh' u"
    proof
      fix u assume "u \<in> set (?col i ds)"
      then obtain k where k: "k < length ds" "u = children (ds ! k) ! i"
        by (auto simp: in_set_conv_nth)
      show "has_shape sh' u"
        using has_shape_nth_Array(2,3) [OF sd k(1)] that k(2) by simp
    qed
    have 3: "?col i cs \<noteq> []" using Suc.prems(1) by simp
    have 4: "length (?col i ds) = length (?col i cs)" using Suc.prems(2) by simp
    have "dot (cat d (?col i cs)) (cat d (?col i ds))
       = (\<Sum>k<length (?col i cs). dot (?col i cs ! k) (?col i ds ! k))"
      by (rule Suc.IH [OF 3 4 1 2 dl])
    also have "\<dots> = (\<Sum>k<length cs. dot (children (cs ! k) ! i) (children (ds ! k) ! i))"
      by (rule sum.cong) (simp_all add: Suc.prems(2))
    finally show ?thesis .
  qed
  have "dot (cat (Suc d) cs) (cat (Suc d) ds)
          = dots (map (\<lambda>i. cat d (?col i cs)) [0..<n0]) (map (\<lambda>i. cat d (?col i ds)) [0..<n0])"
    unfolding c e by simp
  also have "\<dots> = (\<Sum>i<n0. dot (cat d (?col i cs)) (cat d (?col i ds)))"
    by (subst dots_sum) simp_all
  also have "\<dots> = (\<Sum>i<n0. \<Sum>k<length cs. dot (children (cs ! k) ! i) (children (ds ! k) ! i))"
    by (rule sum.cong) (simp_all add: ih)
  also have "\<dots> = (\<Sum>k<length cs. \<Sum>i<n0. dot (children (cs ! k) ! i) (children (ds ! k) ! i))"
    by (rule sum.swap)
  also have "\<dots> = (\<Sum>k<length cs. dot (cs ! k) (ds ! k))"
    by (rule sum.cong) (simp_all add: dot_row_sum [OF sc sd _ Suc.prems(2)])
  finally show ?case .
qed

lemma inner_sum:
  "length xs = length ys \<Longrightarrow>
     inner xs ys = (\<Sum>r<length xs. dot (body (xs ! r)) (body (ys ! r)))"
  unfolding inner_def
  by (subst dots_sum) simp_all

lemma all_to_all_adjoint:
  assumes ne: "xs \<noteq> []" and ux: "uniform sh xs" and s: "s < length sh" and g: "g < length sh"
    and dv: "length xs dvd sh ! s"
    and lg: "length gys = length xs" and ug: "uniform (out_dims (length xs) s g sh) gys"
  shows "\<exists>ys gxs. all_to_all s g xs = Inr ys \<and> all_to_all g s gys = Inr gxs
            \<and> length ys = length xs \<and> length gxs = length xs
            \<and> inner ys gys = inner xs gxs"
proof -
  let ?W = "length xs"
  let ?sh1 = "sh[s := sh ! s div ?W]"
  let ?sh' = "out_dims ?W s g sh"
  let ?ys = "map (\<lambda>r. \<lparr>dims = ?sh', body = cat g (received_chunks s xs r)\<rparr>) [0..<?W]"
  let ?gxs = "map (\<lambda>r. \<lparr>dims = out_dims ?W g s ?sh', body = cat s (received_chunks g gys r)\<rparr>)
                [0..<?W]"
  have W: "0 < ?W" using ne by simp
  have gne: "gys \<noteq> []" using ne lg by auto
  have l': "length ?sh' = length sh" by (simp add: out_dims_def Let_def)
  have dv': "?W dvd ?sh' ! g" using s g by (simp add: out_dims_def Let_def)
  have sh1: "?sh'[g := ?sh' ! g div ?W] = ?sh1"
    using s g W by (simp add: out_dims_def Let_def)
  have fwd: "all_to_all s g xs = Inr ?ys"
    by (rule all_to_all_ok [OF ne ux s g dv])
  have bwd: "all_to_all g s gys = Inr ?gxs"
    using all_to_all_ok [OF gne ug, of g s] g s l' dv' lg by simp
  have cx: "\<forall>c\<in>set (received_chunks s xs r). has_shape ?sh1 c" if "r < ?W" for r
    by (rule received_chunks_shape [OF ux s that])
  have cg: "\<forall>c\<in>set (received_chunks g gys j). has_shape ?sh1 c" if "j < ?W" for j
    using received_chunks_shape [OF ug, of g j] g l' that lg sh1 by simp
  have sx: "\<forall>c\<in>set (split_chunks s ?W (body (xs ! j))). has_shape ?sh1 c" if "j < ?W" for j
  proof
    fix c assume "c \<in> set (split_chunks s ?W (body (xs ! j)))"
    then obtain r where "r < ?W" "c = split_chunks s ?W (body (xs ! j)) ! r"
      by (metis in_set_conv_nth length_split_chunks)
    then show "has_shape ?sh1 c"
      using has_shape_split_chunks [of sh "body (xs ! j)" s r ?W] uniformD [OF ux that] s by simp
  qed
  have sg: "\<forall>c\<in>set (split_chunks g ?W (body (gys ! r))). has_shape ?sh1 c" if "r < ?W" for r
  proof
    fix c assume "c \<in> set (split_chunks g ?W (body (gys ! r)))"
    then obtain j where "j < ?W" "c = split_chunks g ?W (body (gys ! r)) ! j"
      by (metis in_set_conv_nth length_split_chunks)
    then show "has_shape ?sh1 c"
      using has_shape_split_chunks [of ?sh' "body (gys ! r)" g j ?W] uniformD [OF ug, of r]
        that lg g l' sh1 by simp
  qed
  have eq_l: "dot (body (?ys ! r)) (body (gys ! r))
       = (\<Sum>j<?W. dot (split_chunks s ?W (body (xs ! j)) ! r) (split_chunks g ?W (body (gys ! r)) ! j))"
    if r: "r < ?W" for r
  proof -
    have rt: "cat g (split_chunks g ?W (body (gys ! r))) = body (gys ! r)"
      using uniformD [OF ug, of r] r lg g l' dv' W by (intro cat_split_chunks) auto
    have "dot (cat g (received_chunks s xs r)) (cat g (split_chunks g ?W (body (gys ! r))))
        = (\<Sum>j<length (received_chunks s xs r).
             dot (received_chunks s xs r ! j) (split_chunks g ?W (body (gys ! r)) ! j))"
      by (rule dot_cat [OF _ _ cx [OF r] sg [OF r]]) (use ne g in \<open>simp_all add: received_chunks_def\<close>)
    also have "\<dots> = (\<Sum>j<?W. dot (split_chunks s ?W (body (xs ! j)) ! r)
                                (split_chunks g ?W (body (gys ! r)) ! j))"
      by (rule sum.cong) (simp_all add: received_chunks_def)
    finally show ?thesis using r by (simp add: rt)
  qed
  have eq_r: "dot (body (xs ! j)) (body (?gxs ! j))
       = (\<Sum>r<?W. dot (split_chunks s ?W (body (xs ! j)) ! r) (split_chunks g ?W (body (gys ! r)) ! j))"
    if j: "j < ?W" for j
  proof -
    have rt: "cat s (split_chunks s ?W (body (xs ! j))) = body (xs ! j)"
      using uniformD [OF ux j] s dv W by (intro cat_split_chunks) auto
    have "dot (cat s (split_chunks s ?W (body (xs ! j)))) (cat s (received_chunks g gys j))
        = (\<Sum>r<length (split_chunks s ?W (body (xs ! j))).
             dot (split_chunks s ?W (body (xs ! j)) ! r) (received_chunks g gys j ! r))"
    proof (rule dot_cat [OF _ _ sx [OF j] cg [OF j]])
      have "length (split_chunks s ?W (body (xs ! j))) \<noteq> 0" using W by simp
      then show "split_chunks s ?W (body (xs ! j)) \<noteq> []" by (simp only: length_0_conv not_False_eq_True)
      show "length (received_chunks g gys j) = length (split_chunks s ?W (body (xs ! j)))"
        using lg by simp
      show "s < length ?sh1" using s by simp
    qed
    also have "\<dots> = (\<Sum>r<?W. dot (split_chunks s ?W (body (xs ! j)) ! r)
                                (split_chunks g ?W (body (gys ! r)) ! j))"
      by (rule sum.cong) (simp_all add: received_chunks_def lg)
    finally show ?thesis using j by (simp add: rt)
  qed
  have "inner ?ys gys = (\<Sum>r<?W. dot (body (?ys ! r)) (body (gys ! r)))"
    using inner_sum [of ?ys gys] lg by simp
  also have "\<dots> = (\<Sum>r<?W. \<Sum>j<?W. dot (split_chunks s ?W (body (xs ! j)) ! r)
                                      (split_chunks g ?W (body (gys ! r)) ! j))"
    by (rule sum.cong) (simp_all add: eq_l del: nth_map)
  also have "\<dots> = (\<Sum>j<?W. \<Sum>r<?W. dot (split_chunks s ?W (body (xs ! j)) ! r)
                                      (split_chunks g ?W (body (gys ! r)) ! j))"
    by (rule sum.swap)
  also have "\<dots> = (\<Sum>j<?W. dot (body (xs ! j)) (body (?gxs ! j)))"
    by (rule sum.cong) (simp_all add: eq_r del: nth_map)
  also have "\<dots> = inner xs ?gxs"
    using inner_sum [of xs ?gxs] by simp
  finally have "inner ?ys gys = inner xs ?gxs" .
  with fwd bwd show ?thesis by simp
qed

text \<open>The model on the scenario of the test: two workers, \<^verbatim>\<open>scatter_dim=0\<close>,
  \<^verbatim>\<open>gather_dim=1\<close>; the inputs joined along dimension 1 are the outputs joined along
  dimension 0.\<close>

lemma all_to_all_example:
  "all_to_all 0 1 example_inputs =
     Inr [\<lparr>dims = [1, 2], body = Array [Array [Scalar 1, Scalar 3]]\<rparr>,
          \<lparr>dims = [1, 2], body = Array [Array [Scalar 2, Scalar 4]]\<rparr>]"
  by code_simp

lemma test_all_to_all_fwd_example:
  "case all_to_all 0 1 example_inputs of
     Inl e \<Rightarrow> False
   | Inr outputs \<Rightarrow> cat 1 (map body example_inputs) = cat 0 (map body outputs)"
  by code_simp

lemma example_inputs_uniform: "example_inputs \<noteq> []" "uniform [2, 1] example_inputs"
  "length example_inputs = 2"
  by (simp_all add: example_inputs_def uniform_def well_formed_def)

lemma example_grads_uniform: "uniform [1, 2] example_grads" "length example_grads = 2"
  by (simp_all add: example_grads_def uniform_def well_formed_def)

lemma example_odd_uniform: "example_odd \<noteq> []" "uniform [3] example_odd" "length example_odd = 2"
  by (simp_all add: example_odd_def uniform_def well_formed_def)

lemma example_out_dims: "out_dims 2 0 1 [2, 1] = [1, 2]"
  by code_simp

text \<open>
  C3. When all workers hold well-formed tensors of one shape and the world size divides
  the extent \<open>E\<close> along \<open>scatter_dim\<close>, the exchange returns one well-formed tensor per
  worker, of the rank of the input; for distinct dimensions its extent is \<open>E div W\<close> along
  \<open>scatter_dim\<close> and the input's extent times \<open>W\<close> along \<open>gather_dim\<close> (for one and the
  same dimension the shape is the input's), and every other extent is the input's. When
  the world size does not divide \<open>E\<close> the exchange fails with \<^verbatim>\<open>ShapeError\<close>.
\<close>

theorem all_to_all_shape_law:
  assumes "inputs \<noteq> []" and "uniform sh inputs"
    and "scatter_dim < length sh" and "gather_dim < length sh"
  shows "(length inputs dvd sh ! scatter_dim \<longrightarrow>
           (\<exists>outputs. all_to_all scatter_dim gather_dim inputs = Inr outputs
              \<and> length outputs = length inputs
              \<and> (\<forall>y\<in>set outputs. well_formed y \<and> length (dims y) = length sh
                    \<and> (scatter_dim \<noteq> gather_dim \<longrightarrow>
                          dims y ! scatter_dim = sh ! scatter_dim div length inputs
                          \<and> dims y ! gather_dim = sh ! gather_dim * length inputs)
                    \<and> (scatter_dim = gather_dim \<longrightarrow> dims y = sh)
                    \<and> (\<forall>i<length sh. i \<noteq> scatter_dim \<and> i \<noteq> gather_dim \<longrightarrow>
                          dims y ! i = sh ! i))))
       \<and> (\<not> length inputs dvd sh ! scatter_dim \<longrightarrow>
            all_to_all scatter_dim gather_dim inputs = Inl ShapeError)"
proof (intro conjI impI)
  assume dv: "length inputs dvd sh ! scatter_dim"
  let ?W = "length inputs"
  let ?outs = "map (\<lambda>r. \<lparr>dims = out_dims ?W scatter_dim gather_dim sh,
                      body = cat gather_dim (received_chunks scatter_dim inputs r)\<rparr>) [0..<?W]"
  have ok: "all_to_all scatter_dim gather_dim inputs = Inr ?outs"
    by (rule all_to_all_ok [OF assms dv])
  have u: "uniform (out_dims ?W scatter_dim gather_dim sh) ?outs"
    by (rule uniform_outputs [OF assms])
  have same: "out_dims ?W scatter_dim gather_dim sh = sh" if "scatter_dim = gather_dim"
    using that dv assms(3) by (simp add: out_dims_def Let_def)
  have "\<forall>y\<in>set ?outs. well_formed y \<and> length (dims y) = length sh
                    \<and> (scatter_dim \<noteq> gather_dim \<longrightarrow>
                          dims y ! scatter_dim = sh ! scatter_dim div length inputs
                          \<and> dims y ! gather_dim = sh ! gather_dim * length inputs)
                    \<and> (scatter_dim = gather_dim \<longrightarrow> dims y = sh)
                    \<and> (\<forall>i<length sh. i \<noteq> scatter_dim \<and> i \<noteq> gather_dim \<longrightarrow>
                          dims y ! i = sh ! i)"
  proof
    fix y assume "y \<in> set ?outs"
    with u have y: "dims y = out_dims ?W scatter_dim gather_dim sh" "well_formed y"
      unfolding uniform_def by blast+
    show "well_formed y \<and> length (dims y) = length sh
                    \<and> (scatter_dim \<noteq> gather_dim \<longrightarrow>
                          dims y ! scatter_dim = sh ! scatter_dim div length inputs
                          \<and> dims y ! gather_dim = sh ! gather_dim * length inputs)
                    \<and> (scatter_dim = gather_dim \<longrightarrow> dims y = sh)
                    \<and> (\<forall>i<length sh. i \<noteq> scatter_dim \<and> i \<noteq> gather_dim \<longrightarrow>
                          dims y ! i = sh ! i)"
      using y(2) same out_dims_nth [OF assms(3,4), where n = ?W] by (simp add: y(1))
  qed
  with ok show "\<exists>outputs. all_to_all scatter_dim gather_dim inputs = Inr outputs
              \<and> length outputs = length inputs
              \<and> (\<forall>y\<in>set outputs. well_formed y \<and> length (dims y) = length sh
                    \<and> (scatter_dim \<noteq> gather_dim \<longrightarrow>
                          dims y ! scatter_dim = sh ! scatter_dim div length inputs
                          \<and> dims y ! gather_dim = sh ! gather_dim * length inputs)
                    \<and> (scatter_dim = gather_dim \<longrightarrow> dims y = sh)
                    \<and> (\<forall>i<length sh. i \<noteq> scatter_dim \<and> i \<noteq> gather_dim \<longrightarrow>
                          dims y ! i = sh ! i))"
    by (intro exI [of _ ?outs]) simp
next
  assume "\<not> length inputs dvd sh ! scatter_dim"
  then show "all_to_all scatter_dim gather_dim inputs = Inl ShapeError"
    by (rule all_to_all_indivisible [OF assms(1,2)])
qed

theorem all_to_all_shape_law_witness:
  "(\<exists>outputs. all_to_all 0 1 example_inputs = Inr outputs \<and> length outputs = 2
      \<and> (\<forall>y\<in>set outputs. well_formed y \<and> dims y ! 0 = 1 \<and> dims y ! 1 = 2))
   \<and> all_to_all 0 0 example_odd = Inl ShapeError"
proof -
  have d: "length example_inputs dvd [2, 1] ! 0" "(0::nat) \<noteq> 1"
    by (simp_all add: example_inputs_uniform(3))
  have n: "\<not> length example_odd dvd [3] ! 0"
    by (simp add: example_odd_uniform(3))
  have "\<exists>outputs. all_to_all 0 1 example_inputs = Inr outputs \<and> length outputs = 2
      \<and> (\<forall>y\<in>set outputs. well_formed y \<and> dims y ! 0 = 1 \<and> dims y ! 1 = 2)"
    using all_to_all_shape_law [OF example_inputs_uniform(1,2), of 0 1] d
    by (simp add: example_inputs_uniform(3)) blast
  moreover have "all_to_all 0 0 example_odd = Inl ShapeError"
    using all_to_all_shape_law [OF example_odd_uniform(1,2), of 0 0] n by simp
  ultimately show ?thesis by blast
qed

text \<open>
  C5. The exchange with the pair \<open>(a, b)\<close> followed by the exchange with the pair \<open>(b, a)\<close>
  gives every worker back exactly the tensor it started with, shape and entries, whenever
  the workers hold well-formed tensors of one shape whose extent along \<open>a\<close> the world size
  divides.
\<close>

theorem all_to_all_round_trip:
  assumes "inputs \<noteq> []" and "uniform sh inputs" and "a < length sh" and "b < length sh"
    and "length inputs dvd sh ! a"
  shows "\<exists>mid. all_to_all a b inputs = Inr mid \<and> all_to_all b a mid = Inr inputs"
  using all_to_all_ok [OF assms] all_to_all_back [OF assms] by simp

theorem all_to_all_round_trip_witness:
  "\<exists>mid. all_to_all 0 1 example_inputs = Inr mid \<and> all_to_all 1 0 mid = Inr example_inputs"
  by (rule all_to_all_round_trip [OF example_inputs_uniform(1,2)])
     (simp_all add: example_inputs_uniform(3))

text \<open>
  C4. The gradient that the differentiable exchange produces for its input is the exchange
  with \<open>scatter_dim\<close> and \<open>gather_dim\<close> swapped applied to the output gradient, and this
  is the exact adjoint of the forward map: pairing the forward result with any output
  gradient gives the same value as pairing the input with the gradient produced for it.
\<close>

theorem dual_all_to_all_gradient:
  assumes "inputs \<noteq> []" and "uniform sh inputs"
    and "scatter_dim < length sh" and "gather_dim < length sh"
    and "length inputs dvd sh ! scatter_dim"
    and "length grad_outputs = length inputs"
    and "uniform (out_dims (length inputs) scatter_dim gather_dim sh) grad_outputs"
  shows "dual_all_to_all_backward scatter_dim gather_dim grad_outputs
           = all_to_all gather_dim scatter_dim grad_outputs
       \<and> (\<exists>outputs grad_inputs.
             dual_all_to_all scatter_dim gather_dim inputs = Inr outputs
           \<and> dual_all_to_all_backward scatter_dim gather_dim grad_outputs = Inr grad_inputs
           \<and> length grad_inputs = length inputs
           \<and> inner outputs grad_outputs = inner inputs grad_inputs)"
  using all_to_all_adjoint [OF assms]
  by (simp add: dual_all_to_all_def dual_all_to_all_backward_def) blast

theorem dual_all_to_all_gradient_witness:
  "dual_all_to_all_backward 0 1 example_grads = all_to_all 1 0 example_grads
   \<and> (\<exists>outputs grad_inputs.
             dual_all_to_all 0 1 example_inputs = Inr outputs
           \<and> dual_all_to_all_backward 0 1 example_grads = Inr grad_inputs
           \<and> length grad_inputs = length example_inputs
           \<and> inner outputs example_grads = inner example_inputs grad_inputs)"
proof -
  have u: "uniform (out_dims (length example_inputs) 0 1 [2, 1]) example_grads"
    unfolding example_inputs_uniform(3) example_out_dims by (rule example_grads_uniform(1))
  show ?thesis
    by (rule dual_all_to_all_gradient [OF example_inputs_uniform(1,2) _ _ _ _ u])
       (simp_all add: example_inputs_uniform(3) example_grads_uniform(2))
qed

end
